theory Spec2Isabelle
  imports Main
begin

section \<open>OSM primitives as the handlers see them\<close>

text \<open>
  Object ids are \<open>osmium::object_id_type\<close> (a signed 64-bit integer). No handler
  computes with an id, it is only compared and printed, so ids are HOL integers.
  A tag list is the ordered sequence of key/value pairs of \<open>osmium::TagList\<close>.
\<close>

type_synonym object_id = int

type_synonym TagList = "(string \<times> string) list"

text \<open>
  \<open>TagList::get_value_by_key\<close> and \<open>TagList::has_key\<close> both search the list
  front to back for the first tag whose key is equal to the argument; the first gives
  the value of that tag (or a null pointer, here \<open>None\<close>), the second says whether
  there is one.
\<close>

definition get_value_by_key :: "TagList \<Rightarrow> string \<Rightarrow> string option" where
  "get_value_by_key tags key = map_option snd (find (\<lambda>t. fst t = key) tags)"

definition has_key :: "TagList \<Rightarrow> string \<Rightarrow> bool" where
  "has_key tags key = (find (\<lambda>t. fst t = key) tags \<noteq> None)"

record Way =
  w_id :: object_id
  w_tags :: TagList
  w_nodes :: "object_id list"

text \<open>
  An assembled area: its own (synthetic) id, the id of the way or relation it was
  made from, its tags, and its outer rings, each with the inner rings that lie in it.
  A ring is the list of its node references.
\<close>

record Area =
  a_id :: object_id
  a_orig_id :: object_id
  a_tags :: TagList
  a_rings :: "(object_id list \<times> object_id list list) list"

definition outer_rings :: "Area \<Rightarrow> object_id list list" where
  "outer_rings area = map fst (a_rings area)"

section \<open>Text written to an output stream\<close>

text \<open>
  An \<open>std::ofstream\<close> is the text written to it so far; \<open>out << x\<close> appends.
  An integer is written in decimal, with a minus sign when negative.
\<close>

definition digit_char :: "nat \<Rightarrow> char" where
  "digit_char d = ''0123456789'' ! d"

fun show_nat :: "nat \<Rightarrow> string" where
  "show_nat n = (if n < 10 then [digit_char n] else show_nat (n div 10) @ [digit_char (n mod 10)])"

declare show_nat.simps [simp del]

definition show_int :: "int \<Rightarrow> string" where
  "show_int i = (if i < 0 then CHR ''-'' # show_nat (nat (- i)) else show_nat (nat i))"

definition endl :: string where
  "endl = [CHR 0x0A]"

section \<open>The tag filter\<close>

text \<open>
  Modelled from the spec: \<open>osmium::TagsFilter\<close>, \<open>osmium::TagMatcher\<close> and
  \<open>osmium::tags::match_any_of\<close>, which the tools call and which are not among the
  sources. A rule is a polarity and a matcher; a matcher is a key and a value or the
  wildcard (\<open>None\<close>); a rule set is the ordered list of its rules and a default
  polarity. A matcher matches a tag when the keys are equal and the value is equal or
  the matcher's value is the wildcard. A tag passes the rule set when an include rule
  matches it and no exclude rule matches it (exclude rules take precedence); a tag that
  no rule matches gets the default polarity. A tag list matches when one of its tags
  passes.
\<close>

record TagMatcher =
  tm_key :: string
  tm_value :: "string option"

record TagsFilter =
  default_result :: bool
  rules :: "(bool \<times> TagMatcher) list"

definition TagsFilter_new :: "bool \<Rightarrow> TagsFilter" where
  "TagsFilter_new d = \<lparr>default_result = d, rules = []\<rparr>"

definition add_rule :: "bool \<Rightarrow> TagMatcher \<Rightarrow> TagsFilter \<Rightarrow> TagsFilter" where
  "add_rule include m f = f\<lparr>rules := rules f @ [(include, m)]\<rparr>"

definition add_rule_kv :: "bool \<Rightarrow> string \<Rightarrow> string \<Rightarrow> TagsFilter \<Rightarrow> TagsFilter" where
  "add_rule_kv include k v f = add_rule include \<lparr>tm_key = k, tm_value = Some v\<rparr> f"

definition matcher_matches :: "TagMatcher \<Rightarrow> string \<times> string \<Rightarrow> bool" where
  "matcher_matches m t =
     (tm_key m = fst t \<and> (case tm_value m of None \<Rightarrow> True | Some v \<Rightarrow> v = snd t))"

definition tag_passes :: "TagsFilter \<Rightarrow> string \<times> string \<Rightarrow> bool" where
  "tag_passes f t =
     (if list_ex (\<lambda>r. \<not> fst r \<and> matcher_matches (snd r) t) (rules f) then False
      else if list_ex (\<lambda>r. fst r \<and> matcher_matches (snd r) t) (rules f) then True
      else default_result f)"

definition match_any_of :: "TagList \<Rightarrow> TagsFilter \<Rightarrow> bool" where
  "match_any_of tags f = list_ex (tag_passes f) tags"

text \<open>
  The spec's data model also speaks of rules evaluated in list order, the first match
  deciding. That reading of a rule set is \<open>tag_result_in_order\<close>; the two readings
  agree on every rule set without exclude rules (lemma \<open>tag_passes_in_order\<close>), and
  the tools build no other rule sets.
\<close>

definition tag_result_in_order :: "TagsFilter \<Rightarrow> string \<times> string \<Rightarrow> bool" where
  "tag_result_in_order f t =
     (case find (\<lambda>r. matcher_matches (snd r) t) (rules f) of
        Some r \<Rightarrow> fst r
      | None \<Rightarrow> default_result f)"

section \<open>osmium_waterway_ids: the handler\<close>

text \<open>
  \<open>WaterHandler\<close> owns the two output streams and the filter. Both versions of the
  tool have the same \<open>output_waterway\<close>, \<open>output_area\<close>, \<open>way\<close> and \<open>area\<close>.
\<close>

record WaterHandler =
  waystream :: string
  areastream :: string
  m_filter :: TagsFilter

text \<open>The loop \<open>for (nr : nodes) out << "," << nr.ref()\<close>.\<close>

fun put_refs :: "object_id list \<Rightarrow> string \<Rightarrow> string" where
  "put_refs [] out = out"
| "put_refs (nr # nrs) out = put_refs nrs (out @ '','' @ show_int nr)"

text \<open>The nested loop over the outer rings and the nodes of each.\<close>

fun put_rings :: "object_id list list \<Rightarrow> string \<Rightarrow> string" where
  "put_rings [] out = out"
| "put_rings (ring # rings) out = put_rings rings (put_refs ring out)"

definition output_waterway :: "Way \<Rightarrow> string \<Rightarrow> string \<Rightarrow> string" where
  "output_waterway way tag_key out =
     (case get_value_by_key (w_tags way) tag_key of
        None \<Rightarrow> out
      | Some tag_value \<Rightarrow>
          put_refs (w_nodes way) (out @ show_int (w_id way) @ '','' @ tag_value) @ endl)"

definition output_area :: "Area \<Rightarrow> string \<Rightarrow> string \<Rightarrow> string" where
  "output_area area tag_key out =
     (case get_value_by_key (a_tags area) tag_key of
        None \<Rightarrow> out
      | Some tag_value \<Rightarrow>
          put_rings (outer_rings area) (out @ show_int (a_orig_id area) @ '','' @ tag_value) @ endl)"

definition WaterHandler_way :: "WaterHandler \<Rightarrow> Way \<Rightarrow> WaterHandler" where
  "WaterHandler_way h way =
     (let tags = w_tags way in
      if match_any_of tags (m_filter h) then
        if has_key tags ''waterway'' then
          h\<lparr>waystream := output_waterway way ''waterway'' (waystream h)\<rparr>
        else if has_key tags ''natural'' then
          h\<lparr>areastream := output_waterway way ''natural'' (areastream h)\<rparr>
        else if has_key tags ''landuse'' then
          h\<lparr>areastream := output_waterway way ''landuse'' (areastream h)\<rparr>
        else h
      else h)"

definition WaterHandler_area :: "WaterHandler \<Rightarrow> Area \<Rightarrow> WaterHandler" where
  "WaterHandler_area h area =
     (let tags = a_tags area in
      if match_any_of tags (m_filter h) then
        if has_key tags ''natural'' then
          h\<lparr>areastream := output_area area ''natural'' (areastream h)\<rparr>
        else if has_key tags ''landuse'' then
          h\<lparr>areastream := output_area area ''landuse'' (areastream h)\<rparr>
        else h
      else h)"

text \<open>
  The second pass: \<open>osmium::apply\<close> calls \<open>way\<close> for every way of the input, in
  stream order, and \<open>area\<close> for every area the multipolygon manager has assembled.
\<close>

datatype event = WayEvent Way | AreaEvent Area

fun handle_event :: "WaterHandler \<Rightarrow> event \<Rightarrow> WaterHandler" where
  "handle_event h (WayEvent w) = WaterHandler_way h w"
| "handle_event h (AreaEvent a) = WaterHandler_area h a"

definition apply_events :: "event list \<Rightarrow> WaterHandler \<Rightarrow> WaterHandler" where
  "apply_events evs h = foldl handle_event h evs"

text \<open>
  The classifying key, written after the spec: the first key of the priority list
  \<open>waterway\<close>, \<open>natural\<close>, \<open>landuse\<close> that is present in the tags. The sources
  have no such function; \<open>way\<close> decides with a chain of conditionals.
\<close>

definition classifyKey :: "TagList \<Rightarrow> string option" where
  "classifyKey tags = find (has_key tags) [''waterway'', ''natural'', ''landuse'']"

text \<open>One record of the output: id, type, node ids, newline.\<close>

definition csv_record :: "object_id \<Rightarrow> string \<Rightarrow> object_id list \<Rightarrow> string" where
  "csv_record i v refs = show_int i @ '','' @ v @ concat (map (\<lambda>r. '','' @ show_int r) refs) @ endl"

text \<open>
  For the statements about a whole pass: the ways among the events, in stream order,
  and the record a way has in the ways stream, made of the value of its \<open>waterway\<close>
  tag (no text when it has none).
\<close>

fun ways_of :: "event list \<Rightarrow> Way list" where
  "ways_of [] = []"
| "ways_of (WayEvent w # evs) = w # ways_of evs"
| "ways_of (AreaEvent a # evs) = ways_of evs"

definition waterway_record :: "Way \<Rightarrow> string" where
  "waterway_record w =
     (case get_value_by_key (w_tags w) ''waterway'' of
        None \<Rightarrow> []
      | Some v \<Rightarrow> csv_record (w_id w) v (w_nodes w))"

text \<open>The key \<open>area\<close> acts on: \<open>natural\<close> before \<open>landuse\<close>, never \<open>waterway\<close>.\<close>

definition area_key :: "TagList \<Rightarrow> string option" where
  "area_key tags = find (has_key tags) [''natural'', ''landuse'']"

section \<open>osmium_waterway_ids: the filter file and \<open>main\<close>\<close>

text \<open>
  What the tools throw. \<open>runtime_error\<close> carries the message of
  \<open>std::runtime_error\<close>; \<open>parse_error\<close> is the failure of the expression parser
  on the expression it carries; \<open>geometry_error\<close> is \<open>osmium::geometry_error\<close>.
\<close>

datatype exception = runtime_error string | parse_error string | geometry_error

text \<open>
  Modelled from the spec: \<open>get_filter_expression\<close> and \<open>get_tag_matcher\<close> of
  \<open>util.cpp\<close>, which is not among the sources. The spec gives the grammar
  \<open>[!]key[=value]\<close>: a leading \<open>!\<close> means exclude, a bare key is the wildcard, and
  \<open>key=value\<close> is an exact match. \<open>get_filter_expression\<close> returns a pair of which
  the caller reads the second component, the expression text; here the first component
  is the polarity read off the leading \<open>!\<close>. The key is the one mandatory part of the
  grammar, so an expression with an empty key is the unparseable one.
\<close>

definition get_filter_expression :: "string \<Rightarrow> bool \<times> string" where
  "get_filter_expression str =
     (case str of c # rest \<Rightarrow> if c = CHR ''!'' then (False, rest) else (True, str) | [] \<Rightarrow> (True, str))"

definition get_tag_matcher :: "string \<Rightarrow> exception + TagMatcher" where
  "get_tag_matcher expression =
     (let key = takeWhile (\<lambda>c. c \<noteq> CHR ''='') expression;
          rest = dropWhile (\<lambda>c. c \<noteq> CHR ''='') expression
      in if key = [] then Inl (parse_error expression)
         else Inr \<lparr>tm_key = key, tm_value = (case rest of [] \<Rightarrow> None | _ # v \<Rightarrow> Some v)\<rparr>)"

text \<open>
  \<open>WaterHandler::parse_and_add_expression\<close>: the rule is added with the literal
  polarity \<open>true\<close>. (The line it prints to standard output is not modelled.)
\<close>

definition parse_and_add_expression :: "string \<Rightarrow> TagsFilter \<Rightarrow> exception + TagsFilter" where
  "parse_and_add_expression expression f =
     (let p = get_filter_expression expression in
      case get_tag_matcher (snd p) of
        Inl e \<Rightarrow> Inl e
      | Inr m \<Rightarrow> Inr (add_rule True m f))"

text \<open>
  \<open>std::getline\<close> over a whole file: the text is cut at every newline; a last line
  without a newline is still a line, and nothing follows a final newline.
\<close>

fun getlines_from :: "string \<Rightarrow> string \<Rightarrow> string list" where
  "getlines_from cur [] = (if cur = [] then [] else [cur])"
| "getlines_from cur (c # cs) =
     (if c = CHR 0x0A then cur # getlines_from [] cs else getlines_from (cur @ [c]) cs)"

definition getlines :: "string \<Rightarrow> string list" where
  "getlines content = getlines_from [] content"

text \<open>
  The body of the loop of \<open>read_expressions_file\<close>, for one line: erase from the
  first \<open>#\<close>; if the line is not empty, drop a carriage return at its end and parse.
\<close>

definition erase_comment :: "string \<Rightarrow> string" where
  "erase_comment line = takeWhile (\<lambda>c. c \<noteq> CHR ''#'') line"

definition read_expression_line :: "string \<Rightarrow> TagsFilter \<Rightarrow> exception + TagsFilter" where
  "read_expression_line line0 f =
     (let line = erase_comment line0 in
      if line \<noteq> [] then
        parse_and_add_expression (if last line = CHR 0x0D then butlast line else line) f
      else Inr f)"

fun read_expression_lines :: "string list \<Rightarrow> TagsFilter \<Rightarrow> exception + TagsFilter" where
  "read_expression_lines [] f = Inr f"
| "read_expression_lines (line # rest) f =
     (case read_expression_line line f of
        Inl e \<Rightarrow> Inl e
      | Inr f' \<Rightarrow> read_expression_lines rest f')"

text \<open>
  For the statements about the filter file. A line after stripping, read as the spec
  reads it: without the text from the first \<open>#\<close> on and without a carriage return
  at the end. The expressions of a file are its stripped lines that are not empty. An
  expression is unparseable when the parser fails on it; a line is malformed when it is
  handed to the parser and the parser fails. The rule of an expression is the include
  rule with the matcher the parser gives.
\<close>

definition stripped_line :: "string \<Rightarrow> string" where
  "stripped_line line0 =
     (let line = erase_comment line0
      in if line \<noteq> [] \<and> last line = CHR 0x0D then butlast line else line)"

definition expressions_of :: "string list \<Rightarrow> string list" where
  "expressions_of lines = filter (\<lambda>e. e \<noteq> []) (map stripped_line lines)"

definition unparseable :: "string \<Rightarrow> bool" where
  "unparseable e = isl (get_tag_matcher (snd (get_filter_expression e)))"

definition malformed_line :: "string \<Rightarrow> bool" where
  "malformed_line line0 = (erase_comment line0 \<noteq> [] \<and> unparseable (stripped_line line0))"

definition include_rule :: "string \<Rightarrow> bool \<times> TagMatcher" where
  "include_rule e = (True, projr (get_tag_matcher (snd (get_filter_expression e))))"

text \<open>
  A file system is a map from paths to contents. Opening an \<open>std::ofstream\<close> creates
  the file, or empties it.
\<close>

type_synonym filesystem = "string \<rightharpoonup> string"

definition ofstream_open :: "string \<Rightarrow> filesystem \<Rightarrow> filesystem" where
  "ofstream_open path fs = fs(path \<mapsto> [])"

definition read_expressions_file ::
  "filesystem \<Rightarrow> string \<Rightarrow> TagsFilter \<Rightarrow> exception + TagsFilter" where
  "read_expressions_file fs file_name f =
     (case fs file_name of
        None \<Rightarrow> Inl (runtime_error (''Could not open file '' @ [CHR 0x27] @ file_name @ [CHR 0x27]))
      | Some content \<Rightarrow> read_expression_lines (getlines content) f)"

text \<open>
  \<open>main\<close> of the version that reads the filter from a file. \<open>argv\<close> is the whole
  argument vector; the events are what the two passes over the OSM file deliver to the
  handler. The result is the exit status and the file system left behind. The handler
  is constructed, and with it both output files are opened, before the filter file is
  read; an exception unwinds through the destructor, which closes the streams, to the
  handler of \<open>main\<close>, which exits with status 1. The text of a stream is in its file
  when the stream is closed (the two output paths are taken to be different files).
\<close>

definition main_waterway_ids ::
  "string list \<Rightarrow> event list \<Rightarrow> filesystem \<Rightarrow> int \<times> filesystem" where
  "main_waterway_ids argv events fs =
     (if length argv \<noteq> 5 then (1, fs)
      else
        let fs1 = ofstream_open (argv ! 4) (ofstream_open (argv ! 3) fs);
            data_handler = \<lparr>waystream = [], areastream = [], m_filter = TagsFilter_new False\<rparr>
        in case read_expressions_file fs1 (argv ! 2) (m_filter data_handler) of
             Inl e \<Rightarrow> (1, fs1)
           | Inr f \<Rightarrow>
               let h = apply_events events (data_handler\<lparr>m_filter := f\<rparr>)
               in (0, fs1(argv ! 3 \<mapsto> waystream h, argv ! 4 \<mapsto> areastream h)))"

text \<open>
  The version with the built-in filter: the thirteen \<open>add_rule\<close> calls of its
  \<open>main\<close>, in their order, on a filter whose default is \<open>false\<close>.
\<close>

definition shipped_rules :: "(string \<times> string) list" where
  "shipped_rules =
     [(''natural'', ''water''), (''natural'', ''coastline''),
      (''landuse'', ''reservoir''), (''landuse'', ''basin''),
      (''waterway'', ''stream''), (''waterway'', ''river''), (''waterway'', ''ditch''),
      (''waterway'', ''canal''), (''waterway'', ''drain''), (''waterway'', ''weir''),
      (''waterway'', ''dam''), (''waterway'', ''waterfall''), (''waterway'', ''fish_pass'')]"

definition shipped_filter :: TagsFilter where
  "shipped_filter = foldl (\<lambda>f kv. add_rule_kv True (fst kv) (snd kv) f) (TagsFilter_new False) shipped_rules"

section \<open>osmium_rivermap: the input stream\<close>

text \<open>
  An \<open>std::ifstream\<close> is the text not yet read and the three state bits. A file that
  cannot be opened gives a stream with \<open>failbit\<close> set. The operations are those
  \<open>load\<close> and \<open>comma\<close> use, with the behaviour the C++ standard gives them.
\<close>

record istream =
  buf :: string
  eofbit :: bool
  failbit :: bool
  badbit :: bool

definition good :: "istream \<Rightarrow> bool" where
  "good s = (\<not> eofbit s \<and> \<not> failbit s \<and> \<not> badbit s)"

definition fail :: "istream \<Rightarrow> bool" where
  "fail s = (failbit s \<or> badbit s)"

definition setstate_fail :: "istream \<Rightarrow> istream" where
  "setstate_fail s = s\<lparr>failbit := True\<rparr>"

definition ifstream_open :: "filesystem \<Rightarrow> string \<Rightarrow> istream" where
  "ifstream_open fs filename =
     (case fs filename of
        None \<Rightarrow> \<lparr>buf = [], eofbit = False, failbit = True, badbit = False\<rparr>
      | Some content \<Rightarrow> \<lparr>buf = content, eofbit = False, failbit = False, badbit = False\<rparr>)"

text \<open>
  \<open>std::getline(is, str)\<close>: on a stream that is not good it sets \<open>failbit\<close> and
  leaves \<open>str\<close> alone. Otherwise it reads up to and without the next newline, which it
  removes; at the end of the text it sets \<open>eofbit\<close>, and \<open>failbit\<close> too when it
  has read nothing.
\<close>

definition getline :: "istream \<Rightarrow> string \<Rightarrow> istream \<times> string" where
  "getline s str =
     (if \<not> good s then (setstate_fail s, str)
      else
        let line = takeWhile (\<lambda>c. c \<noteq> CHR 0x0A) (buf s);
            rest = dropWhile (\<lambda>c. c \<noteq> CHR 0x0A) (buf s)
        in case rest of
             [] \<Rightarrow> (s\<lparr>buf := [], eofbit := True, failbit := (line = [])\<rparr>, line)
           | _ # rest' \<Rightarrow> (s\<lparr>buf := rest'\<rparr>, line))"

definition isspace :: "char \<Rightarrow> bool" where
  "isspace c = (c \<in> set [CHR '' '', CHR 0x09, CHR 0x0A, CHR 0x0B, CHR 0x0C, CHR 0x0D])"

definition isdigit :: "char \<Rightarrow> bool" where
  "isdigit c = (c \<in> set ''0123456789'')"

text \<open>
  The sentry of a formatted input (\<open>skipws\<close> is on): it fails, setting \<open>failbit\<close>,
  on a stream that is not good; otherwise it skips white space, and fails with
  \<open>eofbit\<close> and \<open>failbit\<close> when nothing is left.
\<close>

definition sentry :: "istream \<Rightarrow> istream \<times> bool" where
  "sentry s =
     (if \<not> good s then (setstate_fail s, False)
      else
        let b = dropWhile isspace (buf s)
        in if b = [] then (s\<lparr>buf := [], eofbit := True, failbit := True\<rparr>, False)
           else (s\<lparr>buf := b\<rparr>, True))"

definition LONG_MAX :: int where
  "LONG_MAX = 2 ^ 63 - 1"

definition LONG_MIN :: int where
  "LONG_MIN = - (2 ^ 63)"

definition digit_val :: "char \<Rightarrow> int" where
  "digit_val c = of_char c - 48"

definition dec_val :: "string \<Rightarrow> int" where
  "dec_val ds = foldl (\<lambda>a c. 10 * a + digit_val c) 0 ds"

text \<open>
  \<open>is >> id\<close> for a \<open>long\<close>: an optional sign and the digits that follow. With no
  digit the value is 0 and \<open>failbit\<close> is set; a value out of range is clamped and
  \<open>failbit\<close> is set; reading up to the end of the text sets \<open>eofbit\<close>. When the
  sentry fails the variable keeps its value.
\<close>

definition extract_long :: "istream \<Rightarrow> int \<Rightarrow> istream \<times> int" where
  "extract_long s x =
     (case sentry s of
        (s1, False) \<Rightarrow> (s1, x)
      | (s1, True) \<Rightarrow>
          let b = buf s1;
              neg = (b \<noteq> [] \<and> hd b = CHR ''-'');
              b1 = (if b \<noteq> [] \<and> (hd b = CHR ''-'' \<or> hd b = CHR ''+'') then tl b else b);
              ds = takeWhile isdigit b1;
              rest = dropWhile isdigit b1;
              s2 = s1\<lparr>buf := rest, eofbit := (rest = [])\<rparr>;
              v = (if neg then - dec_val ds else dec_val ds)
          in if ds = [] then (setstate_fail s2, 0)
             else if v > LONG_MAX then (setstate_fail s2, LONG_MAX)
             else if v < LONG_MIN then (setstate_fail s2, LONG_MIN)
             else (s2, v))"

text \<open>\<open>is >> c\<close> for a \<open>char\<close>: the next character after white space.\<close>

definition extract_char :: "istream \<Rightarrow> char \<Rightarrow> istream \<times> char" where
  "extract_char s c =
     (case sentry s of
        (s1, False) \<Rightarrow> (s1, c)
      | (s1, True) \<Rightarrow> (s1\<lparr>buf := tl (buf s1)\<rparr>, hd (buf s1)))"

text \<open>\<open>is >> name\<close> for a string: the characters up to the next white space.\<close>

definition extract_string :: "istream \<Rightarrow> string \<Rightarrow> istream \<times> string" where
  "extract_string s str =
     (case sentry s of
        (s1, False) \<Rightarrow> (s1, str)
      | (s1, True) \<Rightarrow>
          let w = takeWhile (\<lambda>c. \<not> isspace c) (buf s1);
              rest = dropWhile (\<lambda>c. \<not> isspace c) (buf s1)
          in (s1\<lparr>buf := rest, eofbit := (rest = [])\<rparr>, w))"

text \<open>
  The manipulator \<open>comma\<close> of the tool: it reads one character, and when that
  succeeded and the character is not a comma, \<open>is.clear(std::ios::badbit)\<close> makes
  \<open>badbit\<close> the whole state. The character is a local variable without initial
  value; it is read only after a successful extraction.
\<close>

definition comma :: "istream \<Rightarrow> istream" where
  "comma s =
     (let (s1, c) = extract_char s (CHR 0x00)
      in if \<not> fail s1 \<and> c \<noteq> CHR '','' then s1\<lparr>eofbit := False, failbit := False, badbit := True\<rparr>
         else s1)"

section \<open>osmium_rivermap: the river system table\<close>

text \<open>
  \<open>m_names\<close> is a \<open>std::set\<close> of strings whose nodes never move: here the list of
  its strings in the order they were added, the address of a string being its index.
  \<open>m_id2Name\<close> maps an id to the address of a string in the set. \<open>getName\<close> returns
  a pointer: into the set, or to the empty string \<open>m_empty\<close>.
\<close>

record RiversystemMap =
  m_names :: "string list"
  m_id2Name :: "int \<rightharpoonup> nat"

datatype name_ptr = NamePtr nat | EmptyPtr

definition RiversystemMap_new :: RiversystemMap where
  "RiversystemMap_new = \<lparr>m_names = [], m_id2Name = Map.empty\<rparr>"

fun index_of :: "'a \<Rightarrow> 'a list \<Rightarrow> nat option" where
  "index_of x [] = None"
| "index_of x (y # ys) = (if x = y then Some 0 else map_option Suc (index_of x ys))"

text \<open>\<open>m_names.insert(name).first\<close>: the element equal to \<open>name\<close>, new or old.\<close>

definition set_insert :: "string \<Rightarrow> string list \<Rightarrow> string list \<times> nat" where
  "set_insert name names =
     (case index_of name names of
        Some i \<Rightarrow> (names, i)
      | None \<Rightarrow> (names @ [name], length names))"

text \<open>\<open>std::map::insert\<close> keeps the entry an id already has.\<close>

definition insert_name :: "int \<Rightarrow> string \<Rightarrow> RiversystemMap \<Rightarrow> RiversystemMap" where
  "insert_name i name r =
     (let (names, nameptr) = set_insert name (m_names r)
      in r\<lparr>m_names := names,
           m_id2Name := (case m_id2Name r i of
                           None \<Rightarrow> (m_id2Name r)(i \<mapsto> nameptr)
                         | Some _ \<Rightarrow> m_id2Name r)\<rparr>)"

definition getName :: "RiversystemMap \<Rightarrow> int \<Rightarrow> name_ptr" where
  "getName r i = (case m_id2Name r i of None \<Rightarrow> EmptyPtr | Some p \<Rightarrow> NamePtr p)"

text \<open>The string a pointer returned by \<open>getName\<close> points to.\<close>

definition c_str :: "RiversystemMap \<Rightarrow> name_ptr \<Rightarrow> string" where
  "c_str r p = (case p of EmptyPtr \<Rightarrow> [] | NamePtr a \<Rightarrow> m_names r ! a)"

text \<open>
  The state of \<open>load\<close> in its loop: the stream, the local variables \<open>id\<close> and
  \<open>name\<close>, and the table. One turn of the loop is \<open>ifs >> id >> comma >> name\<close>
  and the insertion. The loop ends when \<open>eofbit\<close> is set, and it need not end:
  the result \<open>None\<close> is a loop that runs forever.
\<close>

type_synonym load_state = "istream \<times> int \<times> string \<times> RiversystemMap"

definition load_step :: "load_state \<Rightarrow> load_state" where
  "load_step st =
     (case st of (ifs, i, name, r) \<Rightarrow>
        let (ifs1, i1) = extract_long ifs i;
            ifs2 = comma ifs1;
            (ifs3, name1) = extract_string ifs2 name
        in (ifs3, i1, name1, insert_name i1 name1 r))"

partial_function (option) load_loop :: "load_state \<Rightarrow> load_state option" where
  "load_loop st = (if eofbit (fst st) then Some st else load_loop (load_step st))"

declare load_loop.simps [code]

text \<open>
  What a call of a member function leaves behind: it returns, or it throws, and either
  way the object is in some state.
\<close>

datatype 'a outcome = Returned 'a | Thrown exception 'a

text \<open>
  \<open>RiversystemMap::load\<close>. The local \<open>id\<close> has no initial value in the source;
  the value it happens to have is the argument \<open>id0\<close>.
\<close>

definition load ::
  "filesystem \<Rightarrow> string \<Rightarrow> int \<Rightarrow> RiversystemMap \<Rightarrow> RiversystemMap outcome option" where
  "load fs filename id0 r =
     (let ifs = ifstream_open fs filename;
          (ifs1, header) = (if \<not> eofbit ifs then getline ifs [] else (ifs, []))
      in if header = [] then
           Some (Thrown (runtime_error (''Can't read from file '' @ filename)) r)
         else if header \<noteq> ''id,rsystem'' then
           Some (Thrown (runtime_error (''Wrong csv header: '' @ header)) r)
         else
           map_option (\<lambda>st. Returned (snd (snd (snd st)))) (load_loop (ifs1, id0, [], r)))"

section \<open>osmium_rivermap: the handler\<close>

text \<open>
  A feature of the layer \<open>waterway\<close>: its geometry and the fields that were set,
  each with its value; setting a field again replaces the value. The field \<open>id\<close>
  holds the way id converted to a double; the model keeps the integer.
  \<open>create_linestring\<close> belongs to the geometry factory of the library: it returns a
  geometry or throws, and is an argument of the handler. The handler catches
  \<open>osmium::geometry_error\<close> (it prints a message and goes on); any other exception
  leaves the handler.
\<close>

datatype field_value = FReal int | FString string

record 'g Feature =
  f_geom :: 'g
  f_fields :: "(string \<times> field_value) list"

fun update_field :: "string \<Rightarrow> field_value \<Rightarrow> (string \<times> field_value) list \<Rightarrow> (string \<times> field_value) list" where
  "update_field name v [] = [(name, v)]"
| "update_field name v (f # fs) =
     (if fst f = name then (name, v) # fs else f # update_field name v fs)"

definition set_field :: "string \<Rightarrow> field_value \<Rightarrow> 'g Feature \<Rightarrow> 'g Feature" where
  "set_field name v feature = feature\<lparr>f_fields := update_field name v (f_fields feature)\<rparr>"

definition get_field :: "'g Feature \<Rightarrow> string \<Rightarrow> field_value option" where
  "get_field feature name = map_of (f_fields feature) name"

definition MyOGRHandler_way ::
  "(Way \<Rightarrow> exception + 'g) \<Rightarrow> RiversystemMap \<Rightarrow> 'g Feature list \<Rightarrow> Way \<Rightarrow>
     exception + 'g Feature list" where
  "MyOGRHandler_way create_linestring m_rsystems m_layer_linestring way =
     (case get_value_by_key (w_tags way) ''waterway'' of
        None \<Rightarrow> Inr m_layer_linestring
      | Some waterway \<Rightarrow>
          (case create_linestring way of
             Inl e \<Rightarrow> if e = geometry_error then Inr m_layer_linestring else Inl e
           | Inr g \<Rightarrow>
               let name = get_value_by_key (w_tags way) ''name'';
                   feature0 = \<lparr>f_geom = g, f_fields = []\<rparr>;
                   feature1 = set_field ''id'' (FReal (w_id way)) feature0;
                   feature2 = (case name of None \<Rightarrow> feature1
                               | Some n \<Rightarrow> set_field ''name'' (FString n) feature1);
                   feature3 = set_field ''type'' (FString waterway) feature2;
                   riversystem = c_str m_rsystems (getName m_rsystems (w_id way));
                   feature4 = set_field ''rsystem'' (FString riversystem) feature3
               in Inr (m_layer_linestring @ [feature4])))"

section \<open>Notions for the statements about osmium_rivermap\<close>

text \<open>
  The first line of a file: none when the file cannot be opened, else the text before
  the first newline.
\<close>

definition first_line :: "filesystem \<Rightarrow> string \<Rightarrow> string option" where
  "first_line fs filename = map_option (takeWhile (\<lambda>c. c \<noteq> CHR 0x0A)) (fs filename)"

text \<open>The table after the rows of a file have been inserted in their order.\<close>

definition insert_rows :: "(int \<times> string) list \<Rightarrow> RiversystemMap \<Rightarrow> RiversystemMap" where
  "insert_rows rows r = foldl (\<lambda>r row. insert_name (fst row) (snd row) r) r rows"

text \<open>
  The text of a river system file with the given rows: the header, and for every row
  a newline, the id in decimal, a comma and the name.
\<close>

definition row_text :: "int \<times> string \<Rightarrow> string" where
  "row_text row = CHR 0x0A # show_int (fst row) @ '','' @ snd row"

definition rows_text :: "(int \<times> string) list \<Rightarrow> string" where
  "rows_text rows = concat (map row_text rows)"

definition csv_text :: "(int \<times> string) list \<Rightarrow> string" where
  "csv_text rows = ''id,rsystem'' @ rows_text rows"

text \<open>
  A row a file can hold so that \<open>load\<close> reads it back: the id is in the range of
  \<open>long\<close>, the name is not empty and has no white space.
\<close>

definition wf_row :: "int \<times> string \<Rightarrow> bool" where
  "wf_row row \<longleftrightarrow>
     LONG_MIN \<le> fst row \<and> fst row \<le> LONG_MAX \<and> snd row \<noteq> [] \<and>
     (\<forall>c\<in>set (snd row). \<not> isspace c)"

text \<open>
  The table is well formed when the strings of the set are distinct and every pointer
  of the map points into the set; the name of an id is the string its pointer points to.
\<close>

definition table_inv :: "RiversystemMap \<Rightarrow> bool" where
  "table_inv r \<longleftrightarrow>
     distinct (m_names r) \<and> (\<forall>i p. m_id2Name r i = Some p \<longrightarrow> p < length (m_names r))"

definition name_of :: "RiversystemMap \<Rightarrow> int \<Rightarrow> string option" where
  "name_of r i = map_option (\<lambda>p. m_names r ! p) (m_id2Name r i)"

text \<open>
  A geometry factory for the examples: the line of a way is the list of its node
  references without repeated neighbours, and like the factory of the library it throws
  \<open>geometry_error\<close> when fewer than two points are left.
\<close>

definition linestring_of_refs :: "Way \<Rightarrow> exception + object_id list" where
  "linestring_of_refs way =
     (let points = remdups_adj (w_nodes way)
      in if length points < 2 then Inl geometry_error else Inr points)"

text \<open>
  The string \<open>getName\<close> points to for an id after a file has been loaded into an
  empty table; none when \<open>load\<close> throws or does not return.
\<close>

definition loaded_name :: "filesystem \<Rightarrow> string \<Rightarrow> int \<Rightarrow> int \<Rightarrow> string option" where
  "loaded_name fs filename id0 i =
     (case load fs filename id0 RiversystemMap_new of
        Some (Returned r) \<Rightarrow> Some (c_str r (getName r i))
      | _ \<Rightarrow> None)"

section \<open>Basic facts\<close>

lemma get_value_by_key_map_of: "get_value_by_key tags key = map_of tags key"
  by (induction tags) (auto simp: get_value_by_key_def)

lemma has_key_iff: "has_key tags key \<longleftrightarrow> key \<in> fst ` set tags"
  by (induction tags) (auto simp: has_key_def)

lemma has_key_value: "has_key tags key \<longleftrightarrow> (\<exists>v. get_value_by_key tags key = Some v)"
  by (induction tags) (auto simp: has_key_def get_value_by_key_def)

lemma put_refs_closed: "put_refs refs out = out @ concat (map (\<lambda>r. '','' @ show_int r) refs)"
  by (induction refs arbitrary: out) auto

lemma put_rings_closed:
  "put_rings rings out = out @ concat (map (\<lambda>r. '','' @ show_int r) (concat rings))"
  by (induction rings arbitrary: out) (auto simp: put_refs_closed)

lemma output_waterway_Some:
  "get_value_by_key (w_tags way) k = Some v \<Longrightarrow>
   output_waterway way k out = out @ csv_record (w_id way) v (w_nodes way)"
  by (simp add: output_waterway_def put_refs_closed csv_record_def)

lemma output_area_Some:
  "get_value_by_key (a_tags area) k = Some v \<Longrightarrow>
   output_area area k out = out @ csv_record (a_orig_id area) v (concat (outer_rings area))"
  by (simp add: output_area_def put_rings_closed csv_record_def)

lemma classifyKey_cases:
  "classifyKey tags =
     (if has_key tags ''waterway'' then Some ''waterway''
      else if has_key tags ''natural'' then Some ''natural''
      else if has_key tags ''landuse'' then Some ''landuse'' else None)"
  by (simp add: classifyKey_def)

lemma area_key_cases:
  "area_key tags =
     (if has_key tags ''natural'' then Some ''natural''
      else if has_key tags ''landuse'' then Some ''landuse'' else None)"
  by (simp add: area_key_def)

lemma WaterHandler_way_filter [simp]: "m_filter (WaterHandler_way h w) = m_filter h"
  by (simp add: WaterHandler_way_def Let_def)

lemma WaterHandler_area_filter [simp]: "m_filter (WaterHandler_area h a) = m_filter h"
  by (simp add: WaterHandler_area_def Let_def)

lemma WaterHandler_area_waystream [simp]: "waystream (WaterHandler_area h a) = waystream h"
  by (simp add: WaterHandler_area_def Let_def)

lemma WaterHandler_way_waystream:
  "waystream (WaterHandler_way h w) =
     waystream h @ (if match_any_of (w_tags w) (m_filter h) then waterway_record w else [])"
  by (auto simp: WaterHandler_way_def Let_def waterway_record_def has_key_value
      output_waterway_Some split: option.splits)

lemma apply_events_Cons: "apply_events (ev # evs) h = apply_events evs (handle_event h ev)"
  by (simp add: apply_events_def)

lemma apply_events_filter [simp]: "m_filter (apply_events evs h) = m_filter h"
proof (induction evs arbitrary: h)
  case Nil
  then show ?case by (simp add: apply_events_def)
next
  case (Cons ev evs)
  then show ?case by (cases ev) (simp_all add: apply_events_Cons)
qed

lemma tag_passes_iff:
  "\<not> default_result f \<Longrightarrow>
   tag_passes f t \<longleftrightarrow>
     (\<exists>r\<in>set (rules f). fst r \<and> matcher_matches (snd r) t) \<and>
     \<not> (\<exists>r\<in>set (rules f). \<not> fst r \<and> matcher_matches (snd r) t)"
  by (auto simp: tag_passes_def list_ex_iff)

lemma tag_passes_in_order:
  assumes "list_all fst (rules f)"
  shows "tag_passes f t = tag_result_in_order f t"
proof (cases "find (\<lambda>r. matcher_matches (snd r) t) (rules f)")
  case None
  then have "\<not> (\<exists>r\<in>set (rules f). matcher_matches (snd r) t)"
    by (auto simp: find_None_iff)
  with None show ?thesis
    by (auto simp: tag_passes_def tag_result_in_order_def list_ex_iff)
next
  case (Some r)
  then have "r \<in> set (rules f)" and "matcher_matches (snd r) t"
    by (auto simp: find_Some_iff)
  moreover from assms have "\<forall>r\<in>set (rules f). fst r"
    by (simp add: list_all_iff)
  ultimately show ?thesis
    using Some by (auto simp: tag_passes_def tag_result_in_order_def list_ex_iff)
qed

lemma shipped_filter_rules:
  "rules shipped_filter =
     map (\<lambda>kv. (True, \<lparr>tm_key = fst kv, tm_value = Some (snd kv)\<rparr>)) shipped_rules"
  by (simp add: shipped_filter_def shipped_rules_def add_rule_kv_def add_rule_def TagsFilter_new_def)

lemma shipped_filter_default: "\<not> default_result shipped_filter"
  by (simp add: shipped_filter_def shipped_rules_def add_rule_kv_def add_rule_def TagsFilter_new_def)

lemma get_tag_matcher_Inl: "get_tag_matcher x = Inl e \<Longrightarrow> e = parse_error x"
  by (auto simp: get_tag_matcher_def Let_def split: if_splits)

lemma parse_and_add_expression_cases:
  "parse_and_add_expression e f =
     (if unparseable e then Inl (parse_error (snd (get_filter_expression e)))
      else Inr (f\<lparr>rules := rules f @ [include_rule e]\<rparr>))"
  by (cases "get_tag_matcher (snd (get_filter_expression e))")
     (auto simp: parse_and_add_expression_def unparseable_def include_rule_def add_rule_def
       dest: get_tag_matcher_Inl)

lemma read_expression_line_cases:
  "read_expression_line line f =
     (if erase_comment line = [] then Inr f
      else parse_and_add_expression (stripped_line line) f)"
  by (simp add: read_expression_line_def stripped_line_def Let_def)

lemma stripped_line_empty:
  "erase_comment line \<noteq> [CHR 0x0D] \<Longrightarrow> stripped_line line = [] \<longleftrightarrow> erase_comment line = []"
  by (cases "erase_comment line" rule: rev_cases) (auto simp: stripped_line_def Let_def)

lemma malformed_line_isl:
  "malformed_line line \<longleftrightarrow> isl (read_expression_line line f)"
  by (simp add: malformed_line_def read_expression_line_cases parse_and_add_expression_cases)

lemma read_expression_lines_isl:
  "isl (read_expression_lines ls f) \<longleftrightarrow> (\<exists>line\<in>set ls. malformed_line line)"
proof (induction ls arbitrary: f)
  case Nil
  then show ?case by simp
next
  case (Cons line ls)
  show ?case
  proof (cases "read_expression_line line f")
    case (Inl e)
    then have "malformed_line line"
      using malformed_line_isl [of line f] by simp
    with Inl show ?thesis by simp
  next
    case (Inr f')
    then have "\<not> malformed_line line"
      using malformed_line_isl [of line f] by simp
    with Inr Cons.IH [of f'] show ?thesis by simp
  qed
qed

lemma expressions_of_Nil [simp]: "expressions_of [] = []"
  by (simp add: expressions_of_def)

lemma expressions_of_Cons:
  "expressions_of (l # ls) =
     (if stripped_line l = [] then expressions_of ls else stripped_line l # expressions_of ls)"
  by (simp add: expressions_of_def)

lemma read_expression_lines_cases:
  assumes "\<forall>line\<in>set ls. erase_comment line \<noteq> [CHR 0x0D]"
  shows "read_expression_lines ls f =
     (case find unparseable (expressions_of ls) of
        Some e \<Rightarrow> Inl (parse_error (snd (get_filter_expression e)))
      | None \<Rightarrow> Inr (f\<lparr>rules := rules f @ map include_rule (expressions_of ls)\<rparr>))"
  using assms
proof (induction ls arbitrary: f)
  case Nil
  then show ?case by simp
next
  case (Cons line ls)
  then have nocr: "erase_comment line \<noteq> [CHR 0x0D]"
    and rest: "\<forall>l\<in>set ls. erase_comment l \<noteq> [CHR 0x0D]"
    by simp_all
  note IH = Cons.IH [OF rest]
  show ?case
  proof (cases "erase_comment line = []")
    case True
    then have "stripped_line line = []"
      using stripped_line_empty [OF nocr] by simp
    with True IH [of f] show ?thesis
      by (simp add: read_expression_line_cases expressions_of_Cons cong: option.case_cong)
  next
    case False
    then have ne: "stripped_line line \<noteq> []"
      using stripped_line_empty [OF nocr] by simp
    show ?thesis
    proof (cases "unparseable (stripped_line line)")
      case True
      with False ne show ?thesis
        by (simp add: read_expression_line_cases parse_and_add_expression_cases expressions_of_Cons)
    next
      case np: False
      with False ne IH [of "f\<lparr>rules := rules f @ [include_rule (stripped_line line)]\<rparr>"]
      show ?thesis
        by (simp add: read_expression_line_cases parse_and_add_expression_cases
            expressions_of_Cons cong: option.case_cong)
    qed
  qed
qed

lemma getline_good:
  "good s \<Longrightarrow> snd (getline s str) = takeWhile (\<lambda>c. c \<noteq> CHR 0x0A) (buf s)"
  by (simp add: getline_def Let_def split: list.splits)

lemma load_header:
  "load fs filename id0 r =
     (case first_line fs filename of
        None \<Rightarrow> Some (Thrown (runtime_error (''Can't read from file '' @ filename)) r)
      | Some header \<Rightarrow>
          if header = [] then Some (Thrown (runtime_error (''Can't read from file '' @ filename)) r)
          else if header \<noteq> ''id,rsystem''
          then Some (Thrown (runtime_error (''Wrong csv header: '' @ header)) r)
          else map_option (\<lambda>st. Returned (snd (snd (snd st))))
                 (load_loop (fst (getline (ifstream_open fs filename) []), id0, [], r)))"
proof (cases "fs filename")
  case None
  then show ?thesis
    by (simp add: load_def first_line_def ifstream_open_def getline_def good_def setstate_fail_def)
next
  case (Some content)
  let ?ifs = "ifstream_open fs filename"
  have g: "good ?ifs" and b: "buf ?ifs = content" and e: "\<not> eofbit ?ifs"
    using Some by (simp_all add: ifstream_open_def good_def)
  have "snd (getline ?ifs []) = takeWhile (\<lambda>c. c \<noteq> CHR 0x0A) content"
    using getline_good [OF g] b by simp
  with Some e show ?thesis
    by (simp add: load_def first_line_def Let_def case_prod_beta)
qed

lemma map_of_update_field:
  "map_of (update_field name v fs) x = (if x = name then Some v else map_of fs x)"
  by (induction fs) auto

lemma get_field_set_field:
  "get_field (set_field name v feature) x = (if x = name then Some v else get_field feature x)"
  by (simp add: get_field_def set_field_def map_of_update_field)

lemma get_field_empty: "get_field \<lparr>f_geom = g, f_fields = []\<rparr> x = None"
  by (simp add: get_field_def)

lemma f_geom_set_field [simp]: "f_geom (set_field name v feature) = f_geom feature"
  by (simp add: set_field_def)

lemma index_of_None: "index_of x xs = None \<longleftrightarrow> x \<notin> set xs"
  by (induction xs) auto

lemma index_of_Some: "index_of x xs = Some i \<Longrightarrow> i < length xs \<and> xs ! i = x"
  by (induction xs arbitrary: i) (auto split: if_splits)

lemma set_insert_props:
  assumes "set_insert name names = (names', p)" and "distinct names"
  shows "distinct names' \<and> p < length names' \<and> names' ! p = name \<and>
         length names \<le> length names' \<and> (\<forall>q < length names. names' ! q = names ! q)"
proof (cases "index_of name names")
  case None
  with assms show ?thesis
    by (auto simp: set_insert_def index_of_None nth_append)
next
  case (Some i)
  with assms index_of_Some [OF Some] show ?thesis
    by (auto simp: set_insert_def)
qed

lemma table_inv_new: "table_inv RiversystemMap_new"
  by (simp add: table_inv_def RiversystemMap_new_def)

lemma insert_name_inv:
  assumes "table_inv r"
  shows "table_inv (insert_name i n r)"
proof -
  obtain names' p where s: "set_insert n (m_names r) = (names', p)"
    by (cases "set_insert n (m_names r)")
  from assms have d: "distinct (m_names r)"
    and b: "\<And>j q. m_id2Name r j = Some q \<Longrightarrow> q < length (m_names r)"
    by (auto simp: table_inv_def)
  note sp = set_insert_props [OF s d]
  have "q < length names'" if "m_id2Name (insert_name i n r) j = Some q" for j q
  proof (cases "m_id2Name r j")
    case None
    with that sp show ?thesis
      by (auto simp: insert_name_def s split: option.splits if_splits)
  next
    case (Some q')
    with that have "q = q'"
      by (auto simp: insert_name_def s split: option.splits if_splits)
    with b [OF Some] sp show ?thesis by simp
  qed
  moreover have "m_names (insert_name i n r) = names'"
    by (simp add: insert_name_def s)
  ultimately show ?thesis
    using sp by (simp add: table_inv_def)
qed

lemma insert_name_name_of:
  assumes "table_inv r"
  shows "name_of (insert_name i n r) = [i \<mapsto> n] ++ name_of r"
proof -
  obtain names' p where s: "set_insert n (m_names r) = (names', p)"
    by (cases "set_insert n (m_names r)")
  from assms have d: "distinct (m_names r)"
    and b: "\<And>j q. m_id2Name r j = Some q \<Longrightarrow> q < length (m_names r)"
    by (auto simp: table_inv_def)
  note sp = set_insert_props [OF s d]
  show ?thesis
  proof
    fix j
    show "name_of (insert_name i n r) j = ([i \<mapsto> n] ++ name_of r) j"
    proof (cases "m_id2Name r j")
      case None
      with sp show ?thesis
        by (auto simp: name_of_def insert_name_def s map_add_def split: option.splits)
    next
      case (Some q)
      with b [OF Some] sp show ?thesis
        by (auto simp: name_of_def insert_name_def s map_add_def split: option.splits)
    qed
  qed
qed

lemma insert_rows_inv: "table_inv r \<Longrightarrow> table_inv (insert_rows rows r)"
  by (induction rows arbitrary: r) (simp_all add: insert_rows_def insert_name_inv)

lemma insert_rows_name_of:
  "table_inv r \<Longrightarrow> name_of (insert_rows rows r) = map_of rows ++ name_of r"
proof (induction rows arbitrary: r)
  case Nil
  then show ?case by (simp add: insert_rows_def)
next
  case (Cons row rows)
  obtain i n where row: "row = (i, n)" by (cases row)
  have "name_of (insert_rows (row # rows) r) = name_of (insert_rows rows (insert_name i n r))"
    by (simp add: insert_rows_def row)
  also have "\<dots> = map_of rows ++ ([i \<mapsto> n] ++ name_of r)"
    using Cons.IH [OF insert_name_inv [OF Cons.prems]] insert_name_name_of [OF Cons.prems]
    by simp
  also have "\<dots> = map_of (row # rows) ++ name_of r"
    unfolding row by (simp add: map_add_assoc [symmetric] map_add_upd del: fun_upd_apply)
  finally show ?case .
qed

lemma c_str_getName: "c_str r (getName r i) = (case name_of r i of None \<Rightarrow> [] | Some n \<Rightarrow> n)"
  by (simp add: c_str_def getName_def name_of_def split: option.splits)

lemma getName_same:
  assumes "table_inv r" and "name_of r i = Some n" and "name_of r j = Some n"
  shows "getName r i = getName r j"
proof -
  from assms(2,3) obtain p q where p: "m_id2Name r i = Some p" "m_names r ! p = n"
    and q: "m_id2Name r j = Some q" "m_names r ! q = n"
    by (auto simp: name_of_def)
  from assms(1) p q have "p < length (m_names r)" "q < length (m_names r)" "distinct (m_names r)"
    by (auto simp: table_inv_def)
  moreover from p q have "m_names r ! p = m_names r ! q"
    by simp
  ultimately have "p = q"
    by (simp add: nth_eq_iff_index_eq)
  with p q show ?thesis
    by (simp add: getName_def)
qed

lemma name_of_new: "name_of RiversystemMap_new = Map.empty"
  by (rule ext) (simp add: name_of_def RiversystemMap_new_def)

lemma digit_cases: "d < 10 \<Longrightarrow> d \<in> {0, 1, 2, 3, 4, 5, 6, 7, 8, 9::nat}"
  by auto

lemma digit_char_props:
  assumes "d < 10"
  shows "isdigit (digit_char d)" and "digit_val (digit_char d) = int d"
    and "\<not> isspace (digit_char d)" and "digit_char d \<noteq> CHR ''-''" and "digit_char d \<noteq> CHR ''+''"
  using digit_cases [OF assms]
  by (auto simp: digit_char_def isdigit_def digit_val_def isspace_def)

lemma show_nat_nonempty: "show_nat n \<noteq> []"
  by (subst show_nat.simps) simp

lemma show_nat_isdigit: "c \<in> set (show_nat n) \<Longrightarrow> isdigit c"
proof (induction n arbitrary: c rule: show_nat.induct)
  case (1 n)
  show ?case
  proof (cases "n < 10")
    case True
    with "1.prems" show ?thesis
      by (subst (asm) show_nat.simps) (simp add: digit_char_props)
  next
    case False
    with "1.prems" "1.IH" show ?thesis
      by (subst (asm) show_nat.simps) (auto simp: digit_char_props)
  qed
qed

lemma dec_val_snoc: "dec_val (ds @ [c]) = 10 * dec_val ds + digit_val c"
  by (simp add: dec_val_def)

lemma dec_val_show_nat: "dec_val (show_nat n) = int n"
proof (induction n rule: show_nat.induct)
  case (1 n)
  show ?case
  proof (cases "n < 10")
    case True
    then show ?thesis
      by (subst show_nat.simps) (simp add: dec_val_def digit_char_props)
  next
    case False
    then have "dec_val (show_nat n) = 10 * dec_val (show_nat (n div 10)) + digit_val (digit_char (n mod 10))"
      by (subst show_nat.simps) (simp add: dec_val_snoc)
    also have "\<dots> = 10 * int (n div 10) + int (n mod 10)"
      using "1.IH" False by (simp add: digit_char_props)
    also have "\<dots> = int n"
      by presburger
    finally show ?thesis .
  qed
qed

lemma comma_not_digit: "\<not> isdigit CHR '',''" "\<not> isspace CHR '',''"
  by (simp_all add: isdigit_def isspace_def)

lemma isdigit_not_space: "isdigit c \<Longrightarrow> \<not> isspace c"
  by (auto simp: isdigit_def isspace_def)

lemma isdigit_not_sign: "isdigit c \<Longrightarrow> c \<noteq> CHR ''-'' \<and> c \<noteq> CHR ''+''"
  by (auto simp: isdigit_def)

lemma hd_show_nat: "isdigit (hd (show_nat n))"
  using show_nat_nonempty [of n] show_nat_isdigit [of "hd (show_nat n)" n] by simp


lemma show_int_shape:
  "\<exists>sign. show_int i = sign @ show_nat (nat \<bar>i\<bar>) \<and> (sign = [] \<or> sign = ''-'') \<and>
          (sign = ''-'' \<longleftrightarrow> i < 0)"
  by (auto simp: show_int_def)

lemma hd_show_int_not_space: "\<not> isspace (hd (show_int i))"
  using hd_show_nat [of "nat i"] hd_show_nat [of "nat (- i)"]
  by (auto simp: show_int_def isspace_def dest: isdigit_not_space)

lemma show_int_nonempty: "show_int i \<noteq> []"
  by (simp add: show_int_def show_nat_nonempty)

lemma dropWhile_isspace_show_int: "dropWhile isspace (show_int i @ xs) = show_int i @ xs"
  using hd_show_int_not_space [of i] show_int_nonempty [of i]
  by (cases "show_int i") simp_all

lemma sentry_ok:
  assumes "good s" and "dropWhile isspace (buf s) = b" and "b \<noteq> []"
  shows "sentry s = (s\<lparr>buf := b\<rparr>, True)"
  using assms by (simp add: sentry_def Let_def)

lemma extract_long_show_int:
  assumes g: "good s" and b: "dropWhile isspace (buf s) = show_int i @ CHR '','' # xs"
    and r: "LONG_MIN \<le> i" "i \<le> LONG_MAX"
  shows "extract_long s x = (s\<lparr>buf := CHR '','' # xs\<rparr>, i)"
proof -
  let ?n = "show_nat (nat \<bar>i\<bar>)"
  have s: "sentry s = (s\<lparr>buf := show_int i @ CHR '','' # xs\<rparr>, True)"
    using sentry_ok [OF g b] show_int_nonempty by simp
  have tw: "takeWhile isdigit (?n @ CHR '','' # xs) = ?n"
    and dw: "dropWhile isdigit (?n @ CHR '','' # xs) = CHR '','' # xs"
    using show_nat_isdigit [of _ "nat \<bar>i\<bar>"]
    by (simp_all add: takeWhile_append2 dropWhile_append2 comma_not_digit)
  have e: "s\<lparr>buf := CHR '','' # xs, eofbit := False\<rparr> = s\<lparr>buf := CHR '','' # xs\<rparr>"
    using g by (simp add: good_def)
  have ne: "?n \<noteq> []"
    by (rule show_nat_nonempty)
  show ?thesis
  proof (cases "i < 0")
    case True
    then have si: "show_int i = CHR ''-'' # ?n"
      by (simp add: show_int_def abs_if)
    have v: "- dec_val ?n = i"
      using True by (simp add: dec_val_show_nat)
    show ?thesis
      unfolding extract_long_def s si
      using r by (simp add: Let_def tw dw ne v e)
  next
    case False
    then have si: "show_int i = ?n"
      by (simp add: show_int_def abs_if)
    have h: "hd ?n \<noteq> CHR ''-''" "hd ?n \<noteq> CHR ''+''"
      using hd_show_nat [of "nat \<bar>i\<bar>"] by (auto dest: isdigit_not_sign)
    have hh: "hd (?n @ CHR '','' # xs) = hd ?n"
      using ne by simp
    have v: "dec_val ?n = i"
      using False by (simp add: dec_val_show_nat)
    show ?thesis
      unfolding extract_long_def s si
      using r by (simp add: Let_def hh h tw dw ne v e)
  qed
qed


lemma comma_ok:
  assumes "good s" and "buf s = CHR '','' # xs"
  shows "comma s = s\<lparr>buf := xs\<rparr>"
proof -
  have "sentry s = (s, True)"
    using sentry_ok [OF assms(1), of "CHR '','' # xs"] assms(2) by (simp add: comma_not_digit)
  with assms show ?thesis
    by (simp add: comma_def extract_char_def fail_def good_def)
qed

lemma extract_string_ok:
  assumes g: "good s" and b: "buf s = n @ rest" and n: "n \<noteq> []" "\<forall>c\<in>set n. \<not> isspace c"
    and r: "rest = [] \<or> isspace (hd rest)"
  shows "extract_string s str = (s\<lparr>buf := rest, eofbit := (rest = [])\<rparr>, n)"
proof -
  have "dropWhile isspace (n @ rest) = n @ rest"
    using n by (cases n) simp_all
  then have s: "sentry s = (s, True)"
    using sentry_ok [OF g, of "n @ rest"] b n by simp
  have "takeWhile (\<lambda>c. \<not> isspace c) (n @ rest) = n"
    and "dropWhile (\<lambda>c. \<not> isspace c) (n @ rest) = rest"
    using n r by (cases rest; simp add: takeWhile_append2 dropWhile_append2)+
  with b show ?thesis
    by (simp add: extract_string_def s Let_def)
qed

lemma load_step_row:
  assumes g: "good s" and w: "wf_row (i, n)"
    and b: "dropWhile isspace (buf s) = show_int i @ CHR '','' # n @ rest"
    and r: "rest = [] \<or> isspace (hd rest)"
  shows "load_step (s, i0, n0, t) = (s\<lparr>buf := rest, eofbit := (rest = [])\<rparr>, i, n, insert_name i n t)"
proof -
  from w have rng: "LONG_MIN \<le> i" "i \<le> LONG_MAX" and nn: "n \<noteq> []" "\<forall>c\<in>set n. \<not> isspace c"
    by (simp_all add: wf_row_def)
  let ?s1 = "s\<lparr>buf := CHR '','' # n @ rest\<rparr>"
  let ?s2 = "s\<lparr>buf := n @ rest\<rparr>"
  have g1: "good ?s1" and g2: "good ?s2"
    using g by (simp_all add: good_def)
  have 1: "extract_long s i0 = (?s1, i)"
    by (rule extract_long_show_int [OF g b rng])
  have 2: "comma ?s1 = ?s2"
    using comma_ok [OF g1, of "n @ rest"] by simp
  have 3: "extract_string ?s2 n0 = (s\<lparr>buf := rest, eofbit := (rest = [])\<rparr>, n)"
    using extract_string_ok [OF g2 _ nn r, of n0] by simp
  show ?thesis
    by (simp add: load_step_def 1 2 3)
qed

lemma rows_text_Cons:
  "rows_text ((i, n) # rows) = CHR 0x0A # show_int i @ CHR '','' # n @ rows_text rows"
  by (simp add: rows_text_def row_text_def)

lemma rows_text_space: "rows_text rows = [] \<or> isspace (hd (rows_text rows))"
  by (cases rows) (auto simp: rows_text_def row_text_def isspace_def)

lemma rows_text_empty: "rows_text rows = [] \<longleftrightarrow> rows = []"
  by (cases rows) (auto simp: rows_text_def row_text_def)

lemma index_of_mem: "x \<in> set xs \<Longrightarrow> \<exists>i. index_of x xs = Some i"
  using index_of_None [of x xs] by (cases "index_of x xs") auto

lemma set_insert_mem:
  assumes "set_insert n names = (names', p)"
  shows "n \<in> set names'"
proof (cases "index_of n names")
  case None
  with assms show ?thesis by (auto simp: set_insert_def)
next
  case (Some k)
  from index_of_Some [OF Some] have "n \<in> set names"
    using nth_mem [of k names] by auto
  with assms Some show ?thesis by (simp add: set_insert_def)
qed

lemma set_insert_again:
  assumes "set_insert n names = (names', p)"
  shows "\<exists>q. set_insert n names' = (names', q)"
proof -
  from index_of_mem [OF set_insert_mem [OF assms]]
  obtain q where "index_of n names' = Some q" ..
  then show ?thesis by (simp add: set_insert_def)
qed

lemma insert_name_idem: "insert_name i n (insert_name i n t) = insert_name i n t"
proof -
  obtain names' p where s: "set_insert n (m_names t) = (names', p)"
    by (cases "set_insert n (m_names t)")
  from set_insert_again [OF s] obtain q where s': "set_insert n names' = (names', q)" ..
  show ?thesis
  proof (cases "m_id2Name t i")
    case None
    let ?t' = "t\<lparr>m_names := names', m_id2Name := (m_id2Name t)(i \<mapsto> p)\<rparr>"
    have 1: "insert_name i n t = ?t'"
      by (simp add: insert_name_def s None)
    have 2: "insert_name i n ?t' = ?t'"
      by (simp add: insert_name_def s')
    show ?thesis
      by (simp only: 1 2)
  next
    case (Some a)
    let ?t' = "t\<lparr>m_names := names', m_id2Name := m_id2Name t\<rparr>"
    have 1: "insert_name i n t = ?t'"
      by (simp add: insert_name_def s Some)
    have 2: "insert_name i n ?t' = ?t'"
      by (simp add: insert_name_def s' Some)
    show ?thesis
      by (simp only: 1 2)
  qed
qed

lemma insert_rows_snoc: "insert_rows (rows @ [(i, n)]) t = insert_name i n (insert_rows rows t)"
  by (simp add: insert_rows_def)

lemma load_step_ws:
  assumes "good s" and "\<forall>c\<in>set (buf s). isspace c"
  shows "load_step (s, i, n, t) =
           (s\<lparr>buf := [], eofbit := True, failbit := True\<rparr>, i, n, insert_name i n t)"
proof -
  let ?s1 = "s\<lparr>buf := [], eofbit := True, failbit := True\<rparr>"
  have d: "dropWhile isspace (buf s) = []"
    using assms(2) by simp
  have 1: "sentry s = (?s1, False)"
    using assms(1) by (simp add: sentry_def d)
  have 2: "sentry ?s1 = (?s1, False)"
    by (simp add: sentry_def good_def setstate_fail_def)
  have a: "extract_long s i = (?s1, i)"
    by (simp add: extract_long_def 1)
  have b: "comma ?s1 = ?s1"
    by (simp add: comma_def extract_char_def 2 fail_def)
  have c: "extract_string ?s1 n = (?s1, n)"
    by (simp add: extract_string_def 2)
  show ?thesis
    by (simp add: load_step_def a b c)
qed


lemma load_loop_rows_trail:
  assumes "\<forall>row\<in>set rows. wf_row row" and "rows \<noteq> []" and "good s"
    and "dropWhile isspace (buf s) = tl (rows_text rows) @ trail"
    and "\<forall>c\<in>set trail. isspace c"
  shows "\<exists>s' i n. load_loop (s, i0, n0, t) = Some (s', i, n, insert_rows rows t)"
  using assms(1-4)
proof (induction rows arbitrary: s i0 n0 t)
  case Nil
  then show ?case by simp
next
  case (Cons row rows)
  obtain i n where row: "row = (i, n)" by (cases row)
  from Cons.prems have w: "wf_row (i, n)" and ws: "\<forall>row\<in>set rows. wf_row row"
    by (simp_all add: row)
  let ?rest = "rows_text rows @ trail"
  have b: "dropWhile isspace (buf s) = show_int i @ CHR '','' # n @ ?rest"
    using Cons.prems(4) by (simp add: row rows_text_Cons)
  have sp: "?rest = [] \<or> isspace (hd ?rest)"
    using rows_text_space [of rows] assms(5) by (cases "rows_text rows"; cases trail) auto
  let ?s' = "s\<lparr>buf := ?rest, eofbit := (?rest = [])\<rparr>"
  have step: "load_step (s, i0, n0, t) = (?s', i, n, insert_name i n t)"
    by (rule load_step_row [OF Cons.prems(3) w b sp])
  have ne: "\<not> eofbit s"
    using Cons.prems(3) by (simp add: good_def)
  have ins: "insert_rows (row # rows) t = insert_rows rows (insert_name i n t)"
    by (simp add: insert_rows_def row)
  have unfold: "load_loop (s, i0, n0, t) = load_loop (?s', i, n, insert_name i n t)"
    using ne step by (subst load_loop.simps) simp
  show ?case
  proof (cases "rows = []")
    case True
    then have it: "insert_rows (row # rows) t = insert_name i n t"
      by (simp add: insert_rows_def row)
    from True have rt: "rows_text rows = []"
      by (simp add: rows_text_def)
    let ?sT = "s\<lparr>buf := trail, eofbit := (trail = [])\<rparr>"
    have unfoldT: "load_loop (s, i0, n0, t) = load_loop (?sT, i, n, insert_name i n t)"
      using unfold by (simp add: rt)
    show ?thesis
    proof (cases "trail = []")
      case True
      then have "eofbit ?sT"
        by simp
      then have "load_loop (?sT, i, n, insert_name i n t) = Some (?sT, i, n, insert_name i n t)"
        by (subst load_loop.simps) simp
      then show ?thesis
        by (simp only: unfoldT it) blast
    next
      case False
      then have g': "good ?sT" and ne': "\<not> eofbit ?sT"
        using Cons.prems(3) by (simp_all add: good_def)
      have sp': "\<forall>c\<in>set (buf ?sT). isspace c"
        using assms(5) by simp
      let ?s'' = "?sT\<lparr>buf := [], eofbit := True, failbit := True\<rparr>"
      have step': "load_step (?sT, i, n, insert_name i n t) =
          (?s'', i, n, insert_name i n (insert_name i n t))"
        by (rule load_step_ws [OF g' sp'])
      have e'': "eofbit ?s''"
        by simp
      have "load_loop (?sT, i, n, insert_name i n t) =
          load_loop (?s'', i, n, insert_name i n (insert_name i n t))"
        by (subst load_loop.simps) (simp only: fst_conv ne' if_False step')
      also have "\<dots> = Some (?s'', i, n, insert_name i n (insert_name i n t))"
        by (subst load_loop.simps) (simp only: fst_conv e'' if_True)
      finally show ?thesis
        by (simp only: unfoldT it insert_name_idem) blast
    qed
  next
    case False
    then have nt: "?rest \<noteq> []"
      by (simp add: rows_text_empty)
    have g': "good ?s'"
      using Cons.prems(3) nt by (simp add: good_def)
    obtain j m rest where rs: "rows = (j, m) # rest"
      using False by (cases rows) auto
    have d: "dropWhile isspace (buf ?s') = tl (rows_text rows) @ trail"
      by (simp add: rs rows_text_Cons isspace_def dropWhile_isspace_show_int)
    from Cons.IH [OF ws False g' d, of i n "insert_name i n t"]
    show ?thesis
      by (simp only: unfold ins)
  qed
qed


lemma csv_text_first_line_split:
  assumes "takeWhile (\<lambda>c. c \<noteq> CHR 0x0A) (csv_text rows @ trail) = ''id,rsystem''"
  shows "dropWhile (\<lambda>c. c \<noteq> CHR 0x0A) (csv_text rows @ trail) = rows_text rows @ trail"
proof -
  let ?P = "\<lambda>c. c \<noteq> CHR 0x0A"
  have "takeWhile ?P (csv_text rows @ trail) @ dropWhile ?P (csv_text rows @ trail) =
      ''id,rsystem'' @ (rows_text rows @ trail)"
    by (simp only: takeWhile_dropWhile_id csv_text_def append_assoc)
  then show ?thesis
    by (simp only: assms same_append_eq)
qed

lemma load_csv_text_trail:
  assumes f: "fs filename = Some (csv_text rows @ trail)"
    and ws: "\<forall>c\<in>set trail. isspace c"
    and fl: "first_line fs filename = Some ''id,rsystem''"
    and w: "\<forall>row\<in>set rows. wf_row row"
  shows "\<exists>r. load fs filename id0 t = Some (Returned r) \<and>
           (r = insert_rows rows t \<or> rows = [] \<and> r = insert_name id0 [] t)"
proof -
  let ?ifs = "ifstream_open fs filename"
  have tw: "takeWhile (\<lambda>c. c \<noteq> CHR 0x0A) (csv_text rows @ trail) = ''id,rsystem''"
    using fl by (simp add: first_line_def f)
  note dw = csv_text_first_line_split [OF tw]
  have l: "load fs filename id0 t =
      map_option (\<lambda>st. Returned (snd (snd (snd st)))) (load_loop (fst (getline ?ifs []), id0, [], t))"
    by (simp add: load_header fl)
  have o: "?ifs = \<lparr>buf = csv_text rows @ trail, eofbit = False, failbit = False, badbit = False\<rparr>"
    by (simp add: ifstream_open_def f)
  have gl: "fst (getline ?ifs []) =
      (if rows_text rows @ trail = []
       then \<lparr>buf = [], eofbit = True, failbit = False, badbit = False\<rparr>
       else \<lparr>buf = tl (rows_text rows @ trail), eofbit = False, failbit = False, badbit = False\<rparr>)"
    unfolding o getline_def
    by (simp only: good_def istream.simps tw dw Let_def) (simp split: list.splits)
  show ?thesis
  proof (cases "rows = []")
    case True
    then have rt: "rows_text rows = []"
      by (simp add: rows_text_def)
    show ?thesis
    proof (cases "trail = []")
      case True
      let ?s = "\<lparr>buf = [], eofbit = True, failbit = False, badbit = False\<rparr>"
      have "fst (getline ?ifs []) = ?s"
        by (simp add: gl rt True)
      moreover have "load_loop (?s, id0, [], t) = Some (?s, id0, [], t)"
        by (subst load_loop.simps) simp
      ultimately show ?thesis
        using \<open>rows = []\<close> by (simp add: l insert_rows_def)
    next
      case False
      let ?s = "\<lparr>buf = tl trail, eofbit = False, failbit = False, badbit = False\<rparr>"
      let ?s' = "?s\<lparr>buf := [], eofbit := True, failbit := True\<rparr>"
      have gl': "fst (getline ?ifs []) = ?s"
        using False by (simp add: gl rt)
      have "set (tl trail) \<subseteq> set trail"
        by (cases trail) auto
      with ws have sw: "\<forall>c\<in>set (buf ?s). isspace c"
        by auto
      have g: "good ?s" and ne: "\<not> eofbit ?s"
        by (simp_all add: good_def)
      have step: "load_step (?s, id0, [], t) = (?s', id0, [], insert_name id0 [] t)"
        by (rule load_step_ws [OF g sw])
      have e: "eofbit ?s'"
        by simp
      have "load_loop (?s, id0, [], t) = load_loop (?s', id0, [], insert_name id0 [] t)"
        by (subst load_loop.simps) (simp only: fst_conv ne if_False step)
      also have "\<dots> = Some (?s', id0, [], insert_name id0 [] t)"
        by (subst load_loop.simps) (simp only: fst_conv e if_True)
      finally show ?thesis
        using \<open>rows = []\<close> by (simp add: l gl')
    qed
  next
    case False
    then obtain i n rest where rs: "rows = (i, n) # rest"
      by (cases rows) auto
    let ?s = "\<lparr>buf = tl (rows_text rows) @ trail, eofbit = False, failbit = False, badbit = False\<rparr>"
    have gl': "fst (getline ?ifs []) = ?s"
      by (simp add: gl rs rows_text_Cons)
    have g: "good ?s"
      by (simp add: good_def)
    have d: "dropWhile isspace (buf ?s) = tl (rows_text rows) @ trail"
      using dropWhile_isspace_show_int [of i "CHR '','' # n @ rows_text rest @ trail"]
      by (simp add: rs rows_text_Cons)
    from load_loop_rows_trail [OF w False g d ws, of id0 "[]" t] show ?thesis
      by (auto simp: l gl')
  qed
qed

section \<open>Claims about osmium_waterway_ids\<close>

text \<open>
  Claim C1. For a way that the filter accepts, the handler acts on the classifying
  key, the first of \<open>waterway\<close>, \<open>natural\<close>, \<open>landuse\<close> that the tags have: the
  way has a value for that key, and exactly one record with the way id, that value and
  the node ids is appended to the ways stream when the key is \<open>waterway\<close> and to the
  areas stream otherwise; the other stream and the filter stay as they are. For the
  tags natural=water, landuse=basin the classifying key is \<open>natural\<close>.
\<close>

theorem C1_classifying_key:
  "(match_any_of (w_tags w) (m_filter h) \<longrightarrow>
     (case classifyKey (w_tags w) of
        None \<Rightarrow> WaterHandler_way h w = h
      | Some k \<Rightarrow>
          k \<in> {''waterway'', ''natural'', ''landuse''} \<and>
          (\<exists>v. get_value_by_key (w_tags w) k = Some v \<and>
             WaterHandler_way h w =
               (if k = ''waterway''
                then h\<lparr>waystream := waystream h @ csv_record (w_id w) v (w_nodes w)\<rparr>
                else h\<lparr>areastream := areastream h @ csv_record (w_id w) v (w_nodes w)\<rparr>))))
   \<and> classifyKey [(''natural'', ''water''), (''landuse'', ''basin'')] = Some ''natural''"
proof (intro conjI impI)
  assume acc: "match_any_of (w_tags w) (m_filter h)"
  show "case classifyKey (w_tags w) of
        None \<Rightarrow> WaterHandler_way h w = h
      | Some k \<Rightarrow>
          k \<in> {''waterway'', ''natural'', ''landuse''} \<and>
          (\<exists>v. get_value_by_key (w_tags w) k = Some v \<and>
             WaterHandler_way h w =
               (if k = ''waterway''
                then h\<lparr>waystream := waystream h @ csv_record (w_id w) v (w_nodes w)\<rparr>
                else h\<lparr>areastream := areastream h @ csv_record (w_id w) v (w_nodes w)\<rparr>))"
  proof (cases "has_key (w_tags w) ''waterway''")
    case True
    then obtain v where v: "get_value_by_key (w_tags w) ''waterway'' = Some v"
      by (auto simp: has_key_value)
    with True acc show ?thesis
      by (simp add: classifyKey_cases WaterHandler_way_def output_waterway_Some)
  next
    case nw: False
    show ?thesis
    proof (cases "has_key (w_tags w) ''natural''")
      case True
      then obtain v where v: "get_value_by_key (w_tags w) ''natural'' = Some v"
        by (auto simp: has_key_value)
      with True nw acc show ?thesis
        by (simp add: classifyKey_cases WaterHandler_way_def output_waterway_Some)
    next
      case nn: False
      show ?thesis
      proof (cases "has_key (w_tags w) ''landuse''")
        case True
        then obtain v where v: "get_value_by_key (w_tags w) ''landuse'' = Some v"
          by (auto simp: has_key_value)
        with True nw nn acc show ?thesis
          by (simp add: classifyKey_cases WaterHandler_way_def output_waterway_Some)
      next
        case False
        with nw nn acc show ?thesis
          by (simp add: classifyKey_cases WaterHandler_way_def)
      qed
    qed
  qed
next
  show "classifyKey [(''natural'', ''water''), (''landuse'', ''basin'')] = Some ''natural''"
    by (simp add: classifyKey_def has_key_def)
qed

text \<open>
  The theorem at a way with the tags natural=water, landuse=basin and the nodes 1, 2, 3,
  under the built-in filter: the record goes to the areas stream, with the value of
  \<open>natural\<close>.
\<close>

theorem C1_classifying_key_witness:
  "match_any_of [(''natural'', ''water''), (''landuse'', ''basin'')] shipped_filter \<and>
   WaterHandler_way \<lparr>waystream = [], areastream = [], m_filter = shipped_filter\<rparr>
       \<lparr>w_id = 42, w_tags = [(''natural'', ''water''), (''landuse'', ''basin'')], w_nodes = [1, 2, 3]\<rparr>
     = \<lparr>waystream = [], areastream = ''42,water,1,2,3'' @ endl, m_filter = shipped_filter\<rparr>"
proof -
  let ?tags = "[(''natural'', ''water''), (''landuse'', ''basin'')]"
  let ?h = "\<lparr>waystream = [], areastream = [], m_filter = shipped_filter\<rparr>"
  let ?w = "\<lparr>w_id = 42, w_tags = ?tags, w_nodes = [1, 2, 3]\<rparr>"
  have acc: "match_any_of ?tags shipped_filter"
    by code_simp
  have ck: "classifyKey ?tags = Some ''natural''"
    by code_simp
  have gv: "get_value_by_key ?tags ''natural'' = Some ''water''"
    by code_simp
  have rec: "csv_record 42 ''water'' [1, 2, 3] = ''42,water,1,2,3'' @ endl"
    by code_simp
  from C1_classifying_key [of ?w ?h] acc ck gv rec show ?thesis
    by simp
qed

text \<open>
  Claim C9. A way whose tags match the filter and have none of the keys
  \<open>waterway\<close>, \<open>natural\<close> and \<open>landuse\<close> leaves the handler as it was: nothing
  is written to the ways stream or to the areas stream.
\<close>

theorem C9_unclassified_way_dropped:
  "match_any_of (w_tags w) (m_filter h) \<Longrightarrow>
   ''waterway'' \<notin> fst ` set (w_tags w) \<Longrightarrow>
   ''natural'' \<notin> fst ` set (w_tags w) \<Longrightarrow>
   ''landuse'' \<notin> fst ` set (w_tags w) \<Longrightarrow>
   WaterHandler_way h w = h"
  by (simp add: WaterHandler_way_def has_key_iff)

text \<open>
  A filter read from a file can hold any key: with the rule \<open>highway\<close> a way tagged
  highway=primary matches and is dropped.
\<close>

theorem C9_unclassified_way_dropped_witness:
  "match_any_of [(''highway'', ''primary'')]
     (add_rule True \<lparr>tm_key = ''highway'', tm_value = None\<rparr> (TagsFilter_new False)) \<and>
   WaterHandler_way
     \<lparr>waystream = [], areastream = [],
      m_filter = add_rule True \<lparr>tm_key = ''highway'', tm_value = None\<rparr> (TagsFilter_new False)\<rparr>
     \<lparr>w_id = 7, w_tags = [(''highway'', ''primary'')], w_nodes = [1, 2, 3]\<rparr>
   = \<lparr>waystream = [], areastream = [],
      m_filter = add_rule True \<lparr>tm_key = ''highway'', tm_value = None\<rparr> (TagsFilter_new False)\<rparr>"
proof -
  have acc: "match_any_of [(''highway'', ''primary'')]
     (add_rule True \<lparr>tm_key = ''highway'', tm_value = None\<rparr> (TagsFilter_new False))"
    by code_simp
  from acc C9_unclassified_way_dropped
    [of "\<lparr>w_id = 7, w_tags = [(''highway'', ''primary'')], w_nodes = [1, 2, 3]\<rparr>"
        "\<lparr>waystream = [], areastream = [],
          m_filter = add_rule True \<lparr>tm_key = ''highway'', tm_value = None\<rparr> (TagsFilter_new False)\<rparr>"]
  show ?thesis by simp
qed

text \<open>
  Claim C3 says that every way the filter accepts appears once in the ways stream. It
  does not: the handler sends an accepted way without the key \<open>waterway\<close> to the
  areas stream (or nowhere). A way tagged natural=water passes the built-in filter and
  leaves the ways stream empty; its record is in the areas stream.
\<close>

theorem C3_counterexample:
  "match_any_of [(''natural'', ''water'')] shipped_filter \<and>
   waystream (apply_events
      [WayEvent \<lparr>w_id = 42, w_tags = [(''natural'', ''water'')], w_nodes = [1, 2, 3]\<rparr>]
      \<lparr>waystream = [], areastream = [], m_filter = shipped_filter\<rparr>) = [] \<and>
   areastream (apply_events
      [WayEvent \<lparr>w_id = 42, w_tags = [(''natural'', ''water'')], w_nodes = [1, 2, 3]\<rparr>]
      \<lparr>waystream = [], areastream = [], m_filter = shipped_filter\<rparr>) = ''42,water,1,2,3'' @ endl"
  by code_simp

text \<open>
  Claim C3, amended. After a pass the ways stream holds what it held before and then,
  in stream order, one record for every way event whose way the filter accepts and
  whose tags have the key \<open>waterway\<close>: the way id, the value of \<open>waterway\<close> and
  the node ids in way order, separated by commas and ended by a newline. Nothing else
  is written to it.
\<close>

theorem C3_way_sink_after_pass:
  "waystream (apply_events evs h) =
     waystream h @
     concat (map waterway_record
       (filter (\<lambda>w. match_any_of (w_tags w) (m_filter h) \<and> has_key (w_tags w) ''waterway'')
          (ways_of evs)))"
proof (induction evs arbitrary: h)
  case Nil
  then show ?case by (simp add: apply_events_def)
next
  case (Cons ev evs)
  show ?case
  proof (cases ev)
    case (WayEvent w)
    have "waterway_record w = []" if "\<not> has_key (w_tags w) ''waterway''"
      using that by (auto simp: waterway_record_def has_key_value split: option.splits)
    with WayEvent Cons.IH [of "WaterHandler_way h w"] show ?thesis
      by (auto simp: apply_events_Cons WaterHandler_way_waystream)
  next
    case (AreaEvent a)
    with Cons.IH [of "WaterHandler_area h a"] show ?thesis
      by (simp add: apply_events_Cons)
  qed
qed

text \<open>
  Claim C4. For an area that the filter accepts, the handler acts on the first of
  \<open>natural\<close> and \<open>landuse\<close> that the tags have: it appends to the areas stream one
  record made of the original id (not the id of the area), the value of that key and
  the node ids of all outer rings in ring order; with neither key it writes nothing.
  The inner rings do not occur in the record. An area with one outer ring of four nodes
  and one inner ring of four nodes gives a record with four node ids.
\<close>

theorem C4_area_record:
  "(match_any_of (a_tags a) (m_filter h) \<longrightarrow>
      (case area_key (a_tags a) of
         None \<Rightarrow> WaterHandler_area h a = h
       | Some k \<Rightarrow>
           (\<exists>v. get_value_by_key (a_tags a) k = Some v \<and>
              WaterHandler_area h a =
                h\<lparr>areastream := areastream h @
                     csv_record (a_orig_id a) v (concat (map fst (a_rings a)))\<rparr>)))
   \<and> WaterHandler_area \<lparr>waystream = [], areastream = [], m_filter = shipped_filter\<rparr>
        \<lparr>a_id = 15, a_orig_id = 7, a_tags = [(''natural'', ''water'')],
         a_rings = [([1, 2, 3, 1], [[5, 6, 8, 5]])]\<rparr>
      = \<lparr>waystream = [], areastream = ''7,water,1,2,3,1'' @ endl, m_filter = shipped_filter\<rparr>"
proof (intro conjI impI)
  assume acc: "match_any_of (a_tags a) (m_filter h)"
  show "case area_key (a_tags a) of
         None \<Rightarrow> WaterHandler_area h a = h
       | Some k \<Rightarrow>
           (\<exists>v. get_value_by_key (a_tags a) k = Some v \<and>
              WaterHandler_area h a =
                h\<lparr>areastream := areastream h @
                     csv_record (a_orig_id a) v (concat (map fst (a_rings a)))\<rparr>)"
  proof (cases "has_key (a_tags a) ''natural''")
    case True
    then obtain v where "get_value_by_key (a_tags a) ''natural'' = Some v"
      by (auto simp: has_key_value)
    with True acc show ?thesis
      by (simp add: area_key_cases WaterHandler_area_def output_area_Some outer_rings_def)
  next
    case nn: False
    show ?thesis
    proof (cases "has_key (a_tags a) ''landuse''")
      case True
      then obtain v where "get_value_by_key (a_tags a) ''landuse'' = Some v"
        by (auto simp: has_key_value)
      with True nn acc show ?thesis
        by (simp add: area_key_cases WaterHandler_area_def output_area_Some outer_rings_def)
    next
      case False
      with nn acc show ?thesis
        by (simp add: area_key_cases WaterHandler_area_def)
    qed
  qed
next
  show "WaterHandler_area \<lparr>waystream = [], areastream = [], m_filter = shipped_filter\<rparr>
        \<lparr>a_id = 15, a_orig_id = 7, a_tags = [(''natural'', ''water'')],
         a_rings = [([1, 2, 3, 1], [[5, 6, 8, 5]])]\<rparr>
      = \<lparr>waystream = [], areastream = ''7,water,1,2,3,1'' @ endl, m_filter = shipped_filter\<rparr>"
    by code_simp
qed

text \<open>
  The theorem at an area made from relation 4, tagged landuse=basin, with two outer
  rings, the second with a hole: the record has the eight node ids of the outer rings.
\<close>

theorem C4_area_record_witness:
  "match_any_of [(''landuse'', ''basin'')] shipped_filter \<and>
   WaterHandler_area \<lparr>waystream = [], areastream = [], m_filter = shipped_filter\<rparr>
      \<lparr>a_id = 9, a_orig_id = 4, a_tags = [(''landuse'', ''basin'')],
       a_rings = [([1, 2, 3, 1], []), ([7, 8, 9, 7], [[10, 11, 12, 10]])]\<rparr>
    = \<lparr>waystream = [], areastream = ''4,basin,1,2,3,1,7,8,9,7'' @ endl, m_filter = shipped_filter\<rparr>"
proof -
  let ?tags = "[(''landuse'', ''basin'')]"
  let ?h = "\<lparr>waystream = [], areastream = [], m_filter = shipped_filter\<rparr>"
  let ?a = "\<lparr>a_id = 9, a_orig_id = 4, a_tags = ?tags,
             a_rings = [([1, 2, 3, 1], []), ([7, 8, 9, 7], [[10, 11, 12, 10]])]\<rparr>"
  have acc: "match_any_of ?tags shipped_filter"
    by code_simp
  have ak: "area_key ?tags = Some ''landuse''"
    by code_simp
  have gv: "get_value_by_key ?tags ''landuse'' = Some ''basin''"
    by code_simp
  have rec: "csv_record 4 ''basin'' [1, 2, 3, 1, 7, 8, 9, 7] = ''4,basin,1,2,3,1,7,8,9,7'' @ endl"
    by code_simp
  from C4_area_record [of ?a ?h] acc ak gv rec show ?thesis
    by simp
qed

text \<open>
  Claim C2. For a rule set whose default is exclude, as both tools construct it, a tag
  list matches exactly when one of its tags is matched by an include rule and by no
  exclude rule; a rule matches a tag when the keys are equal and the rule's value is
  the wildcard or equal to the tag's value. The built-in rule set has the default
  exclude and only include rules, so a tag list matches it exactly when one of its tags
  is one of the thirteen key/value pairs.
\<close>

theorem C2_matches:
  "(\<not> default_result f \<longrightarrow>
      (match_any_of T f \<longleftrightarrow>
         (\<exists>t\<in>set T.
            (\<exists>r\<in>set (rules f). fst r \<and> matcher_matches (snd r) t) \<and>
            \<not> (\<exists>r\<in>set (rules f). \<not> fst r \<and> matcher_matches (snd r) t))))
   \<and> (matcher_matches m (k, v) \<longleftrightarrow> tm_key m = k \<and> (tm_value m = None \<or> tm_value m = Some v))
   \<and> \<not> default_result shipped_filter
   \<and> list_all fst (rules shipped_filter)
   \<and> (match_any_of T shipped_filter \<longleftrightarrow> (\<exists>t\<in>set T. t \<in> set shipped_rules))"
proof (intro conjI impI)
  assume "\<not> default_result f"
  then show "match_any_of T f \<longleftrightarrow>
         (\<exists>t\<in>set T.
            (\<exists>r\<in>set (rules f). fst r \<and> matcher_matches (snd r) t) \<and>
            \<not> (\<exists>r\<in>set (rules f). \<not> fst r \<and> matcher_matches (snd r) t))"
    by (simp add: match_any_of_def list_ex_iff tag_passes_iff)
next
  show "matcher_matches m (k, v) \<longleftrightarrow> tm_key m = k \<and> (tm_value m = None \<or> tm_value m = Some v)"
    by (auto simp: matcher_matches_def split: option.splits)
next
  show "\<not> default_result shipped_filter"
    by (rule shipped_filter_default)
next
  show "list_all fst (rules shipped_filter)"
    by (simp add: shipped_filter_rules list_all_iff)
next
  have "tag_passes shipped_filter t \<longleftrightarrow> t \<in> set shipped_rules" for t
    by (cases t) (force simp: tag_passes_iff [OF shipped_filter_default] shipped_filter_rules
        matcher_matches_def)
  then show "match_any_of T shipped_filter \<longleftrightarrow> (\<exists>t\<in>set T. t \<in> set shipped_rules)"
    by (simp add: match_any_of_def list_ex_iff)
qed

text \<open>
  The theorem at a rule set with the exclude rule natural=water and the include rule
  \<open>natural\<close> (any value): the tag natural=water does not match, natural=wood does.
\<close>

theorem C2_matches_witness:
  "\<not> default_result (add_rule True \<lparr>tm_key = ''natural'', tm_value = None\<rparr>
        (add_rule False \<lparr>tm_key = ''natural'', tm_value = Some ''water''\<rparr> (TagsFilter_new False))) \<and>
   \<not> match_any_of [(''natural'', ''water'')]
       (add_rule True \<lparr>tm_key = ''natural'', tm_value = None\<rparr>
          (add_rule False \<lparr>tm_key = ''natural'', tm_value = Some ''water''\<rparr> (TagsFilter_new False))) \<and>
   match_any_of [(''natural'', ''wood'')]
       (add_rule True \<lparr>tm_key = ''natural'', tm_value = None\<rparr>
          (add_rule False \<lparr>tm_key = ''natural'', tm_value = Some ''water''\<rparr> (TagsFilter_new False)))"
proof -
  let ?f = "add_rule True \<lparr>tm_key = ''natural'', tm_value = None\<rparr>
          (add_rule False \<lparr>tm_key = ''natural'', tm_value = Some ''water''\<rparr> (TagsFilter_new False))"
  have d: "\<not> default_result ?f"
    by (simp add: add_rule_def TagsFilter_new_def)
  have r: "rules ?f = [(False, \<lparr>tm_key = ''natural'', tm_value = Some ''water''\<rparr>),
                       (True, \<lparr>tm_key = ''natural'', tm_value = None\<rparr>)]"
    by (simp add: add_rule_def TagsFilter_new_def)
  from d C2_matches [of ?f "[(''natural'', ''water'')]"]
  have a: "\<not> match_any_of [(''natural'', ''water'')] ?f"
    by (simp add: r matcher_matches_def)
  from d C2_matches [of ?f "[(''natural'', ''wood'')]"]
  have b: "match_any_of [(''natural'', ''wood'')] ?f"
    by (simp add: r matcher_matches_def)
  from d a b show ?thesis by blast
qed

text \<open>
  Claim C6, amended. On a filter file none of whose lines is, after the removal of the
  comment, a lone carriage return: every line loses the text from its first \<open>#\<close>
  and a carriage return at its end; a line that is then empty gives no rule; every
  other line is parsed as \<open>[!]key[=value]\<close> and gives exactly one rule, in file
  order, and that rule is always an include rule (the polarity passed to
  \<open>add_rule\<close> is the literal \<open>true\<close>, a leading \<open>!\<close> is skipped), with the
  wildcard for a bare key and the exact value for \<open>key=value\<close>; the first line the
  parser fails on ends the load with its error and no rule set.
\<close>

theorem C6_read_expressions_file:
  assumes "fs file_name = Some content"
    and "\<forall>line\<in>set (getlines content). erase_comment line \<noteq> [CHR 0x0D]"
  shows "read_expressions_file fs file_name f =
     (case find unparseable (expressions_of (getlines content)) of
        Some e \<Rightarrow> Inl (parse_error (snd (get_filter_expression e)))
      | None \<Rightarrow>
          Inr (f\<lparr>rules := rules f @ map include_rule (expressions_of (getlines content))\<rparr>))"
  using assms by (simp add: read_expressions_file_def read_expression_lines_cases)

text \<open>
  The theorem at a file of five lines (a key with a comment, a line with a carriage
  return, a comment line, an empty line and a line with a leading \<open>!\<close>): three
  include rules.
\<close>

theorem C6_read_expressions_file_witness:
  "read_expressions_file
     [''rules.txt'' \<mapsto> ''waterway # all'' @ [CHR 0x0A] @ ''natural=water'' @ [CHR 0x0D, CHR 0x0A] @
        ''# c'' @ [CHR 0x0A] @ [CHR 0x0A] @ ''!landuse=basin'' @ [CHR 0x0A]]
     ''rules.txt'' (TagsFilter_new False)
   = Inr \<lparr>default_result = False,
          rules = [(True, \<lparr>tm_key = ''waterway '', tm_value = None\<rparr>),
                   (True, \<lparr>tm_key = ''natural'', tm_value = Some ''water''\<rparr>),
                   (True, \<lparr>tm_key = ''landuse'', tm_value = Some ''basin''\<rparr>)]\<rparr>"
proof -
  let ?content = "''waterway # all'' @ [CHR 0x0A] @ ''natural=water'' @ [CHR 0x0D, CHR 0x0A] @
        ''# c'' @ [CHR 0x0A] @ [CHR 0x0A] @ ''!landuse=basin'' @ [CHR 0x0A]"
  let ?es = "[''waterway '', ''natural=water'', ''!landuse=basin'']"
  have ls: "getlines ?content =
      [''waterway # all'', ''natural=water'' @ [CHR 0x0D], ''# c'', [], ''!landuse=basin'']"
    by code_simp
  have f: "[''rules.txt'' \<mapsto> ?content] ''rules.txt'' = Some ?content"
    by simp
  have h: "\<forall>line\<in>set (getlines ?content). erase_comment line \<noteq> [CHR 0x0D]"
    unfolding ls by code_simp
  have es: "expressions_of (getlines ?content) = ?es"
    unfolding ls by code_simp
  have ok: "find unparseable ?es = None"
    by code_simp
  have rs: "map include_rule ?es =
      [(True, \<lparr>tm_key = ''waterway '', tm_value = None\<rparr>),
       (True, \<lparr>tm_key = ''natural'', tm_value = Some ''water''\<rparr>),
       (True, \<lparr>tm_key = ''landuse'', tm_value = Some ''basin''\<rparr>)]"
    by code_simp
  have "read_expressions_file [''rules.txt'' \<mapsto> ?content] ''rules.txt'' (TagsFilter_new False) =
      Inr ((TagsFilter_new False)\<lparr>rules := rules (TagsFilter_new False) @ map include_rule ?es\<rparr>)"
    using C6_read_expressions_file
      [of "[''rules.txt'' \<mapsto> ?content]" "''rules.txt''" ?content "TagsFilter_new False", OF f h]
    by (simp only: es ok option.case)
  also have "\<dots> = Inr \<lparr>default_result = False,
          rules = [(True, \<lparr>tm_key = ''waterway '', tm_value = None\<rparr>),
                   (True, \<lparr>tm_key = ''natural'', tm_value = Some ''water''\<rparr>),
                   (True, \<lparr>tm_key = ''landuse'', tm_value = Some ''basin''\<rparr>)]\<rparr>"
    unfolding rs by (simp add: TagsFilter_new_def)
  finally show ?thesis .
qed

text \<open>
  Claim C6 fails in two places. A line that holds only a carriage return is not empty
  when the loop tests it, so the empty text is handed to the parser and the load does
  not return the rule set as it was. And the line \<open>!waterway\<close> gives an include rule:
  the rule set it produces accepts a way tagged waterway=river.
\<close>

theorem C6_counterexample:
  "read_expression_lines [[CHR 0x0D]] (TagsFilter_new False) \<noteq> Inr (TagsFilter_new False) \<and>
   read_expression_lines [''!waterway''] (TagsFilter_new False) =
     Inr \<lparr>default_result = False, rules = [(True, \<lparr>tm_key = ''waterway'', tm_value = None\<rparr>)]\<rparr> \<and>
   match_any_of [(''waterway'', ''river'')]
     \<lparr>default_result = False, rules = [(True, \<lparr>tm_key = ''waterway'', tm_value = None\<rparr>)]\<rparr>"
  by code_simp


text \<open>
  Claim C5, amended. When the filter file (a file other than the two output files)
  has a malformed line, the run ends with exit status 1 whatever the OSM input holds:
  no event is handled and no record is written. Both output files have been created,
  or emptied, by then, and are left behind empty.
\<close>

theorem C5_malformed_rules_abort:
  assumes "length argv = 5"
    and "argv ! 2 \<noteq> argv ! 3" and "argv ! 2 \<noteq> argv ! 4"
    and "fs (argv ! 2) = Some content"
    and "\<exists>line\<in>set (getlines content). malformed_line line"
  shows "main_waterway_ids argv events fs = (1, fs(argv ! 3 \<mapsto> [], argv ! 4 \<mapsto> []))"
proof -
  let ?fs1 = "ofstream_open (argv ! 4) (ofstream_open (argv ! 3) fs)"
  have "?fs1 (argv ! 2) = Some content"
    using assms(2-4) by (simp add: ofstream_open_def)
  moreover have "isl (read_expression_lines (getlines content) (TagsFilter_new False))"
    using assms(5) by (simp add: read_expression_lines_isl)
  ultimately have "isl (read_expressions_file ?fs1 (argv ! 2) (TagsFilter_new False))"
    by (simp add: read_expressions_file_def)
  then obtain e where "read_expressions_file ?fs1 (argv ! 2) (TagsFilter_new False) = Inl e"
    by (cases "read_expressions_file ?fs1 (argv ! 2) (TagsFilter_new False)") auto
  with assms(1) show ?thesis
    by (simp add: main_waterway_ids_def Let_def ofstream_open_def)
qed

text \<open>
  Claim C5 says that no output file is created when the filter file has a malformed
  line. The constructor of the handler opens both before the filter file is read: with
  the second line \<open>=water\<close> the run exits with status 1, and the two output files,
  which did not exist, exist and are empty.
\<close>

theorem C5_counterexample:
  "[''rules.txt'' \<mapsto> ''waterway=river'' @ [CHR 0x0A] @ ''=water'' @ [CHR 0x0A]] ''ways.csv'' = None \<and>
   [''rules.txt'' \<mapsto> ''waterway=river'' @ [CHR 0x0A] @ ''=water'' @ [CHR 0x0A]] ''areas.csv'' = None \<and>
   fst (main_waterway_ids
     [''osmium_waterway_ids'', ''in.osm.pbf'', ''rules.txt'', ''ways.csv'', ''areas.csv'']
     [WayEvent \<lparr>w_id = 7, w_tags = [(''waterway'', ''river'')], w_nodes = [1, 2, 3]\<rparr>]
     [''rules.txt'' \<mapsto> ''waterway=river'' @ [CHR 0x0A] @ ''=water'' @ [CHR 0x0A]]) = 1 \<and>
   snd (main_waterway_ids
     [''osmium_waterway_ids'', ''in.osm.pbf'', ''rules.txt'', ''ways.csv'', ''areas.csv'']
     [WayEvent \<lparr>w_id = 7, w_tags = [(''waterway'', ''river'')], w_nodes = [1, 2, 3]\<rparr>]
     [''rules.txt'' \<mapsto> ''waterway=river'' @ [CHR 0x0A] @ ''=water'' @ [CHR 0x0A]]) ''ways.csv'' = Some [] \<and>
   snd (main_waterway_ids
     [''osmium_waterway_ids'', ''in.osm.pbf'', ''rules.txt'', ''ways.csv'', ''areas.csv'']
     [WayEvent \<lparr>w_id = 7, w_tags = [(''waterway'', ''river'')], w_nodes = [1, 2, 3]\<rparr>]
     [''rules.txt'' \<mapsto> ''waterway=river'' @ [CHR 0x0A] @ ''=water'' @ [CHR 0x0A]]) ''areas.csv'' = Some []"
  by code_simp

text \<open>
  The theorem at a run whose filter file has the line \<open>!\<close> and whose ways file
  existed before: it is emptied.
\<close>

theorem C5_malformed_rules_abort_witness:
  "main_waterway_ids
     [''osmium_waterway_ids'', ''in.osm.pbf'', ''rules.txt'', ''ways.csv'', ''areas.csv'']
     [WayEvent \<lparr>w_id = 7, w_tags = [(''natural'', ''water'')], w_nodes = [1, 2, 3]\<rparr>]
     [''rules.txt'' \<mapsto> ''natural=water'' @ [CHR 0x0A] @ ''!'' @ [CHR 0x0A],
      ''ways.csv'' \<mapsto> ''1,river,5,6'' @ [CHR 0x0A]]
   = (1, [''rules.txt'' \<mapsto> ''natural=water'' @ [CHR 0x0A] @ ''!'' @ [CHR 0x0A],
          ''ways.csv'' \<mapsto> [], ''areas.csv'' \<mapsto> []])"
proof -
  let ?argv = "[''osmium_waterway_ids'', ''in.osm.pbf'', ''rules.txt'', ''ways.csv'', ''areas.csv'']"
  let ?content = "''natural=water'' @ [CHR 0x0A] @ ''!'' @ [CHR 0x0A]"
  let ?fs = "[''rules.txt'' \<mapsto> ?content, ''ways.csv'' \<mapsto> ''1,river,5,6'' @ [CHR 0x0A]]"
  have a: "length ?argv = 5" "?argv ! 2 \<noteq> ?argv ! 3" "?argv ! 2 \<noteq> ?argv ! 4"
    by simp_all
  have c: "?fs (?argv ! 2) = Some ?content"
    by simp
  have m: "\<exists>line\<in>set (getlines ?content). malformed_line line"
    by code_simp
  from C5_malformed_rules_abort [of ?argv ?fs ?content, OF a c m] show ?thesis
    by simp
qed

section \<open>Claims about osmium_rivermap\<close>

text \<open>
  Claim C7. \<open>load\<close> throws unless the first line of the file is exactly
  \<open>id,rsystem\<close>: when the file cannot be opened, when its first line is empty and
  when its first line is anything else, the call throws a \<open>runtime_error\<close> and the
  table is as it was before the call. When the first line is the header, \<open>load\<close>
  does not throw.
\<close>

theorem C7_load_header:
  "(first_line fs filename \<noteq> Some ''id,rsystem'' \<longrightarrow>
      (\<exists>msg. load fs filename id0 r = Some (Thrown (runtime_error msg) r))) \<and>
   (first_line fs filename = Some ''id,rsystem'' \<longrightarrow>
      (\<forall>e r'. load fs filename id0 r \<noteq> Some (Thrown e r')))"
  by (cases "first_line fs filename")
     (auto simp: load_header split: option.splits)

text \<open>
  The theorem at a file whose header has a semicolon, and at a file with the right
  header.
\<close>

theorem C7_load_header_witness:
  "(\<exists>msg. load [''rs.csv'' \<mapsto> ''id;rsystem'' @ [CHR 0x0A] @ ''5,Rhine''] ''rs.csv'' 0 RiversystemMap_new
            = Some (Thrown (runtime_error msg) RiversystemMap_new)) \<and>
   (\<forall>e r'. load [''rs.csv'' \<mapsto> ''id,rsystem'' @ [CHR 0x0A] @ ''5,Rhine''] ''rs.csv'' 0 RiversystemMap_new
            \<noteq> Some (Thrown e r'))"
proof -
  have a: "first_line [''rs.csv'' \<mapsto> ''id;rsystem'' @ [CHR 0x0A] @ ''5,Rhine''] ''rs.csv''
             \<noteq> Some ''id,rsystem''"
    by (simp add: first_line_def)
  have b: "first_line [''rs.csv'' \<mapsto> ''id,rsystem'' @ [CHR 0x0A] @ ''5,Rhine''] ''rs.csv''
             = Some ''id,rsystem''"
    by (simp add: first_line_def)
  from a b
    C7_load_header [of "[''rs.csv'' \<mapsto> ''id;rsystem'' @ [CHR 0x0A] @ ''5,Rhine'']" "''rs.csv''" 0
      RiversystemMap_new]
    C7_load_header [of "[''rs.csv'' \<mapsto> ''id,rsystem'' @ [CHR 0x0A] @ ''5,Rhine'']" "''rs.csv''" 0
      RiversystemMap_new]
  show ?thesis by blast
qed


text \<open>
  Claim C8 says that after loading every id of the file has its name and every other
  id the empty string. \<open>load\<close> reads a name with \<open>ifs >> name\<close>, which stops at
  white space and leaves the name as it was when nothing can be read, and it inserts
  without looking at the state of the stream. On a file with the row \<open>5,Rio 7\<close>
  id 5 gets \<open>Rio\<close>, and id 7, which is no id of the file, gets \<open>Rio\<close> too; on a
  file whose last row is \<open>6,\<close> id 6 gets the name of the row before it.
\<close>

theorem C8_counterexample:
  "loaded_name [''rs.csv'' \<mapsto> ''id,rsystem'' @ [CHR 0x0A] @ ''5,Rio 7''] ''rs.csv'' 0 5 = Some ''Rio'' \<and>
   loaded_name [''rs.csv'' \<mapsto> ''id,rsystem'' @ [CHR 0x0A] @ ''5,Rio 7''] ''rs.csv'' 0 7 = Some ''Rio'' \<and>
   loaded_name [''rs.csv'' \<mapsto> ''id,rsystem'' @ [CHR 0x0A] @ ''5,Rhine'' @ [CHR 0x0A] @ ''6,'']
     ''rs.csv'' 0 6 = Some ''Rhine''"
  by code_simp

text \<open>
  Claim C8, amended. On a file that holds the header, then rows of an id in the range
  of \<open>long\<close>, a comma and a name that is not empty and has no white space, one row
  per line, and then nothing but white space, \<open>load\<close> into an empty table returns,
  and afterwards \<open>getName\<close> depends on the rows alone: for an id of the file it
  points to the name of the first row with that id, two ids with the same name get the
  same pointer, and for an id that is not in the file it points to an empty string.
  This holds whatever value the local \<open>id\<close> of \<open>load\<close> starts with.
\<close>

theorem C8_lookup_after_load:
  assumes "fs filename = Some (csv_text rows @ trail)"
    and "\<forall>c\<in>set trail. isspace c"
    and "first_line fs filename = Some ''id,rsystem''"
    and "\<forall>row\<in>set rows. wf_row row"
  shows "\<exists>r. load fs filename id0 RiversystemMap_new = Some (Returned r) \<and>
           (\<forall>i. c_str r (getName r i) = (case map_of rows i of None \<Rightarrow> [] | Some n \<Rightarrow> n)) \<and>
           (\<forall>i j n. map_of rows i = Some n \<and> map_of rows j = Some n \<longrightarrow> getName r i = getName r j)"
proof -
  have "\<exists>r. load fs filename id0 RiversystemMap_new = Some (Returned r) \<and>
           (r = insert_rows rows RiversystemMap_new \<or>
            rows = [] \<and> r = insert_name id0 [] RiversystemMap_new)"
    using assms by (rule load_csv_text_trail)
  then obtain r where l: "load fs filename id0 RiversystemMap_new = Some (Returned r)"
    and r: "r = insert_rows rows RiversystemMap_new \<or>
            rows = [] \<and> r = insert_name id0 [] RiversystemMap_new"
    by blast
  from r show ?thesis
  proof
    assume e: "r = insert_rows rows RiversystemMap_new"
    have inv: "table_inv r"
      unfolding e by (rule insert_rows_inv [OF table_inv_new])
    have no: "name_of r = map_of rows"
      by (simp add: e insert_rows_name_of [OF table_inv_new] name_of_new)
    have "c_str r (getName r i) = (case map_of rows i of None \<Rightarrow> [] | Some n \<Rightarrow> n)" for i
      by (simp add: c_str_getName no)
    moreover have "getName r i = getName r j"
      if "map_of rows i = Some n \<and> map_of rows j = Some n" for i j n
      using that getName_same [OF inv, of i n j] by (simp add: no)
    ultimately show ?thesis
      using l by blast
  next
    assume e: "rows = [] \<and> r = insert_name id0 [] RiversystemMap_new"
    then have no: "name_of r = [id0 \<mapsto> []]"
      by (simp add: insert_name_name_of [OF table_inv_new] name_of_new)
    have "c_str r (getName r i) = []" for i
      by (simp add: c_str_getName no)
    with e l show ?thesis
      by simp
  qed
qed

text \<open>
  The theorem at the file of the claim: ids 5 and 6 share the string \<open>Rhine\<close>, id 7
  has \<open>Danube\<close>, id 99 the empty string.
\<close>

theorem C8_lookup_after_load_witness:
  "\<exists>r. load [''rs.csv'' \<mapsto> ''id,rsystem'' @ [CHR 0x0A] @ ''5,Rhine'' @ [CHR 0x0A] @ ''6,Rhine'' @
                [CHR 0x0A] @ ''7,Danube''] ''rs.csv'' 0 RiversystemMap_new = Some (Returned r) \<and>
       c_str r (getName r 5) = ''Rhine'' \<and> c_str r (getName r 6) = ''Rhine'' \<and>
       getName r 5 = getName r 6 \<and>
       c_str r (getName r 7) = ''Danube'' \<and> c_str r (getName r 99) = []"
proof -
  let ?rows = "[(5, ''Rhine''), (6, ''Rhine''), (7, ''Danube'')]"
  let ?text = "''id,rsystem'' @ [CHR 0x0A] @ ''5,Rhine'' @ [CHR 0x0A] @ ''6,Rhine'' @
                [CHR 0x0A] @ ''7,Danube''"
  have t: "csv_text ?rows @ [] = ?text"
    by code_simp
  have f: "[''rs.csv'' \<mapsto> ?text] ''rs.csv'' = Some (csv_text ?rows @ [])"
    by (simp only: t fun_upd_same)
  have e: "\<forall>c\<in>set []. isspace c"
    by simp
  have h: "first_line [''rs.csv'' \<mapsto> ?text] ''rs.csv'' = Some ''id,rsystem''"
    by (simp add: first_line_def)
  have w: "\<forall>row\<in>set ?rows. wf_row row"
    by code_simp
  from C8_lookup_after_load [of "[''rs.csv'' \<mapsto> ?text]" "''rs.csv''" ?rows "[]" 0, OF f e h w]
  obtain r where l: "load [''rs.csv'' \<mapsto> ?text] ''rs.csv'' 0 RiversystemMap_new = Some (Returned r)"
    and c: "\<And>i. c_str r (getName r i) = (case map_of ?rows i of None \<Rightarrow> [] | Some n \<Rightarrow> n)"
    and p: "\<And>i j n. map_of ?rows i = Some n \<and> map_of ?rows j = Some n \<Longrightarrow> getName r i = getName r j"
    by blast
  have "getName r 5 = getName r 6"
    by (rule p [of 5 "''Rhine''" 6]) simp
  with l c [of 5] c [of 6] c [of 7] c [of 99] show ?thesis
    by auto
qed

text \<open>
  Claim C10, amended. The handler adds a feature for a way exactly when the tags have
  the key \<open>waterway\<close>, whatever its value and without any rule set, and the geometry
  factory returns a line for the way; when the factory throws \<open>geometry_error\<close> the
  way is skipped, and any other exception leaves the handler. In the feature,
  \<open>type\<close> is the value of \<open>waterway\<close>, \<open>rsystem\<close> is always set, to the
  string the table gives for the way id (the empty string when the id is absent), and
  \<open>name\<close> is set exactly when the tags have \<open>name\<close>.
\<close>

theorem C10_way_feature:
  "(case (get_value_by_key (w_tags w) ''waterway'', create_linestring w) of
      (None, _) \<Rightarrow> MyOGRHandler_way create_linestring rs layer w = Inr layer
    | (Some v, Inl e) \<Rightarrow>
        MyOGRHandler_way create_linestring rs layer w =
          (if e = geometry_error then Inr layer else Inl e)
    | (Some v, Inr g) \<Rightarrow>
        (\<exists>feature.
           MyOGRHandler_way create_linestring rs layer w = Inr (layer @ [feature]) \<and>
           f_geom feature = g \<and>
           get_field feature ''type'' = Some (FString v) \<and>
           get_field feature ''rsystem'' = Some (FString (c_str rs (getName rs (w_id w)))) \<and>
           get_field feature ''name'' = map_option FString (get_value_by_key (w_tags w) ''name'')))"
  by (auto simp: MyOGRHandler_way_def get_field_set_field get_field_empty Let_def
      split: option.splits sum.splits)

text \<open>
  Claim C10 says that a way is written whenever its tags have the key \<open>waterway\<close>.
  A way with that key whose geometry is refused (both node references are the same
  point) is not written: the layer stays empty.
\<close>

theorem C10_counterexample:
  "has_key [(''waterway'', ''river'')] ''waterway'' \<and>
   MyOGRHandler_way linestring_of_refs RiversystemMap_new []
     \<lparr>w_id = 7, w_tags = [(''waterway'', ''river'')], w_nodes = [1, 1]\<rparr> = Inr []"
  by code_simp

end
